theory Spec2Isabelle
  imports Main "HOL-Library.Word" "HOL-Library.Log_Nat"
begin

unbundle bit_operations_syntax

section \<open>Machine types of \<^verbatim>\<open>src/common/matrix.h\<close>\<close>

text \<open>
  The class \<^verbatim>\<open>Matrix\<close> pairs a host array and a device array of \<^verbatim>\<open>half\<close>. Sizes and
  indices are \<^verbatim>\<open>size_t\<close> (64 bits on every platform the CUDA toolkit supports), pointers
  are 64-bit addresses with \<^verbatim>\<open>nullptr = 0\<close>, and a \<^verbatim>\<open>half\<close> in memory is its 16-bit
  pattern: \<^verbatim>\<open>cudaMemset\<close> and \<^verbatim>\<open>cudaMemcpy\<close> move patterns, not numbers.
\<close>

type_synonym size_t = "64 word"
type_synonym ptr = "64 word"
type_synonym half = "16 word"

section \<open>IEEE 754 values and arithmetic\<close>

text \<open>
  A \<^verbatim>\<open>float\<close> or \<^verbatim>\<open>double\<close> variable holds a NaN, a signed infinity, or a sign and a
  rational magnitude (so \<open>+0\<close> and \<open>-0\<close> are different values). The sign is \<open>True\<close> for
  negative. Arithmetic computes the exact rational result and rounds it to the format,
  to nearest with ties to even, the default rounding mode of the host and of
  \<^verbatim>\<open>__float2half\<close>. An operation on two \<^verbatim>\<open>float\<close> operands rounds to \<^verbatim>\<open>float\<close>, as on every
  64-bit host (no excess precision).
\<close>

datatype ieee = NaN | Infinity bool | Finite bool rat

text \<open>A format is its precision \<open>p\<close> (bits of significand) and exponent range.\<close>

record format =
  prec :: nat
  emin :: int
  emax :: int

definition binary16 :: format where
  "binary16 = \<lparr>prec = 11, emin = - 14, emax = 15\<rparr>"

definition binary32 :: format where
  "binary32 = \<lparr>prec = 24, emin = - 126, emax = 127\<rparr>"

definition binary64 :: format where
  "binary64 = \<lparr>prec = 53, emin = - 1022, emax = 1023\<rparr>"

definition pow2 :: "int \<Rightarrow> rat" where
  "pow2 e = (if 0 \<le> e then 2 ^ nat e else 1 / 2 ^ nat (- e))"

text \<open>\<open>ilog2 x\<close> is \<open>\<lfloor>log\<^sub>2 x\<rfloor>\<close> for a positive rational, from the bit lengths of its
  numerator and denominator.\<close>

definition ilog2 :: "rat \<Rightarrow> int" where
  "ilog2 x = (case quotient_of x of (a, b) \<Rightarrow>
     (let d = bitlen a - bitlen b in if pow2 d \<le> x then d else d - 1))"

definition round_even :: "rat \<Rightarrow> int" where
  "round_even x = (let f = \<lfloor>x\<rfloor>; d = x - of_int f in
     if d < 1 / 2 then f else if 1 / 2 < d then f + 1 else if even f then f else f + 1)"

text \<open>The exponent of the quantum in which a positive magnitude is rounded: the
  magnitude's own exponent, or \<open>emin\<close> in the subnormal range.\<close>

definition quantum :: "format \<Rightarrow> rat \<Rightarrow> rat" where
  "quantum fmt m = pow2 (max (ilog2 m) (emin fmt) - int (prec fmt) + 1)"

definition round_mag :: "format \<Rightarrow> rat \<Rightarrow> rat" where
  "round_mag fmt m = of_int (round_even (m / quantum fmt m)) * quantum fmt m"

definition fround :: "format \<Rightarrow> bool \<Rightarrow> rat \<Rightarrow> ieee" where
  "fround fmt s m =
     (if m = 0 then Finite s 0
      else if pow2 (emax fmt + 1) \<le> round_mag fmt m then Infinity s
      else Finite s (round_mag fmt m))"

definition signed :: "bool \<Rightarrow> rat \<Rightarrow> rat" where
  "signed s m = (if s then - m else m)"

fun fneg :: "ieee \<Rightarrow> ieee" where
  "fneg NaN = NaN"
| "fneg (Infinity s) = Infinity (\<not> s)"
| "fneg (Finite s m) = Finite (\<not> s) m"

text \<open>\<^verbatim>\<open>std::abs\<close> on a float clears the sign bit.\<close>

fun fabs :: "ieee \<Rightarrow> ieee" where
  "fabs NaN = NaN"
| "fabs (Infinity s) = Infinity False"
| "fabs (Finite s m) = Finite False m"

text \<open>Addition: an exact zero sum is \<open>-0\<close> only when both operands are negative
  (\<open>-0 + -0\<close>); infinities of opposite sign give NaN.\<close>

fun fadd :: "format \<Rightarrow> ieee \<Rightarrow> ieee \<Rightarrow> ieee" where
  "fadd fmt NaN y = NaN"
| "fadd fmt (Infinity s) NaN = NaN"
| "fadd fmt (Infinity s) (Infinity t) = (if s = t then Infinity s else NaN)"
| "fadd fmt (Infinity s) (Finite t b) = Infinity s"
| "fadd fmt (Finite s a) NaN = NaN"
| "fadd fmt (Finite s a) (Infinity t) = Infinity t"
| "fadd fmt (Finite s a) (Finite t b) =
     (let r = signed s a + signed t b in
      if r = 0 then Finite (s \<and> t) 0 else fround fmt (r < 0) \<bar>r\<bar>)"

definition fsub :: "format \<Rightarrow> ieee \<Rightarrow> ieee \<Rightarrow> ieee" where
  "fsub fmt x y = fadd fmt x (fneg y)"

fun fdiv :: "format \<Rightarrow> ieee \<Rightarrow> ieee \<Rightarrow> ieee" where
  "fdiv fmt NaN y = NaN"
| "fdiv fmt (Infinity s) NaN = NaN"
| "fdiv fmt (Infinity s) (Infinity t) = NaN"
| "fdiv fmt (Infinity s) (Finite t b) = Infinity (s \<noteq> t)"
| "fdiv fmt (Finite s a) NaN = NaN"
| "fdiv fmt (Finite s a) (Infinity t) = Finite (s \<noteq> t) 0"
| "fdiv fmt (Finite s a) (Finite t b) =
     (if b = 0 then (if a = 0 then NaN else Infinity (s \<noteq> t))
      else fround fmt (s \<noteq> t) (a / b))"

text \<open>The comparisons \<^verbatim>\<open><\<close> and \<^verbatim>\<open><=\<close>: false whenever an operand is NaN.\<close>

fun flt :: "ieee \<Rightarrow> ieee \<Rightarrow> bool" where
  "flt NaN y = False"
| "flt (Infinity s) NaN = False"
| "flt (Infinity s) (Infinity t) = (s \<and> \<not> t)"
| "flt (Infinity s) (Finite t b) = s"
| "flt (Finite s a) NaN = False"
| "flt (Finite s a) (Infinity t) = (\<not> t)"
| "flt (Finite s a) (Finite t b) = (signed s a < signed t b)"

fun fle :: "ieee \<Rightarrow> ieee \<Rightarrow> bool" where
  "fle NaN y = False"
| "fle (Infinity s) NaN = False"
| "fle (Infinity s) (Infinity t) = (s \<or> \<not> t)"
| "fle (Infinity s) (Finite t b) = s"
| "fle (Finite s a) NaN = False"
| "fle (Finite s a) (Infinity t) = (\<not> t)"
| "fle (Finite s a) (Finite t b) = (signed s a \<le> signed t b)"

text \<open>\<^verbatim>\<open>std::max(a, b)\<close> is \<^verbatim>\<open>(a < b) ? b : a\<close>.\<close>

definition std_max :: "ieee \<Rightarrow> ieee \<Rightarrow> ieee" where
  "std_max a b = (if flt a b then b else a)"

text \<open>Conversions. Every \<^verbatim>\<open>float\<close> is a \<^verbatim>\<open>double\<close>, so widening keeps the value;
  narrowing rounds; \<^verbatim>\<open>double(n)\<close> of a \<^verbatim>\<open>size_t\<close> rounds the integer.\<close>

definition float_to_double :: "ieee \<Rightarrow> ieee" where
  "float_to_double x = x"

fun double_to_float :: "ieee \<Rightarrow> ieee" where
  "double_to_float NaN = NaN"
| "double_to_float (Infinity s) = Infinity s"
| "double_to_float (Finite s m) = fround binary32 s m"

definition size_to_double :: "size_t \<Rightarrow> ieee" where
  "size_to_double n = fround binary64 False (of_nat (unat n))"

subsection \<open>\<^verbatim>\<open>__half2float\<close> and \<^verbatim>\<open>__float2half\<close>\<close>

text \<open>A half is sign (bit 15), exponent (bits 14..10) and fraction (bits 9..0).
  Decoding is exact. Encoding rounds to nearest even; the pattern of a magnitude is
  \<open>(e - emin) * 2\<^sup>1\<^sup>0 + k\<close> for the rounded significand \<open>k\<close>, which covers subnormals
  (\<open>k < 2\<^sup>1\<^sup>0\<close>) and the carry into the next exponent; from \<^verbatim>\<open>0x7C00\<close> on it is infinity.
  NaN becomes \<^verbatim>\<open>0x7FFF\<close>.\<close>

definition half2float :: "half \<Rightarrow> ieee" where
  "half2float h =
     (let s = bit h 15; e = unat (drop_bit 10 h AND 31); f = unat (h AND 1023) in
      if e = 31 then (if f = 0 then Infinity s else NaN)
      else if e = 0 then Finite s (of_nat f * pow2 (- 24))
      else Finite s (of_nat (1024 + f) * pow2 (int e - 25)))"

definition half_sign :: "bool \<Rightarrow> half" where
  "half_sign s = (if s then 0x8000 else 0)"

definition half_mag :: "rat \<Rightarrow> half" where
  "half_mag m =
     (if m = 0 then 0
      else let e = max (ilog2 m) (emin binary16);
               k = round_even (m / quantum binary16 m);
               pat = (e - emin binary16) * 2 ^ 10 + k
           in if 0x7C00 \<le> pat then 0x7C00 else word_of_int pat)"

fun float2half :: "ieee \<Rightarrow> half" where
  "float2half NaN = 0x7FFF"
| "float2half (Infinity s) = half_sign s OR 0x7C00"
| "float2half (Finite s m) = half_sign s OR half_mag m"

section \<open>The memory model\<close>

text \<open>
  A \<^verbatim>\<open>Matrix\<close> object is a record of its data members. Objects, host arrays and device
  arrays live in three stores keyed by address, so that \<^verbatim>\<open>base\<close> may be the very object
  a method is called on.
\<close>

record Matrix =
  m_row :: size_t
  m_col :: size_t
  m_name :: string
  m_min :: ieee
  m_max :: ieee
  m_elem_num :: size_t
  m_data :: ptr
  m_gpu_data :: ptr
  m_max_diff :: ieee
  m_avg_diff :: ieee

record world =
  heap :: "ptr \<rightharpoonup> half list"
  gmem :: "ptr \<rightharpoonup> half list"
  objs :: "ptr \<rightharpoonup> Matrix"

text \<open>
  Every check of the source ends the process. An outcome is either a return with the
  new state, or an abort with its cause and the state at that moment. \<open>Fault\<close> stands for
  what the language leaves undefined (a dangling \<^verbatim>\<open>this\<close> or \<^verbatim>\<open>base\<close>, an index past the
  end of an array); \<open>BadAlloc\<close> is the exception of a failed \<^verbatim>\<open>new\<close>.
\<close>

datatype cudaError_t = cudaSuccess | cudaErrorInvalidValue | cudaErrorMemoryAllocation

datatype fatal = CheckFailed string | CudartError cudaError_t | BadAlloc | Fault

datatype outcome = Returns world | Aborts fatal world

fun and_then :: "outcome \<Rightarrow> (world \<Rightarrow> outcome) \<Rightarrow> outcome" where
  "and_then (Returns w) k = k w"
| "and_then (Aborts e w) k = Aborts e w"

subsection \<open>The check macros\<close>

text \<open>
  Modelled from the spec: \<^verbatim>\<open>common.h\<close>, which defines the \<^verbatim>\<open>HGEMM_CHECK\<close> macros, is not
  among the sources. The spec describes each as a fatal check: when the condition is
  false the program terminates at once, naming the failed condition;
  \<^verbatim>\<open>HGEMM_CHECK_CUDART_ERROR\<close> does so when a runtime call does not report success.
\<close>

definition HGEMM_CHECK :: "string \<Rightarrow> bool \<Rightarrow> world \<Rightarrow> outcome" where
  "HGEMM_CHECK what c w = (if c then Returns w else Aborts (CheckFailed what) w)"

definition HGEMM_CHECK_EQ :: "string \<Rightarrow> size_t \<Rightarrow> size_t \<Rightarrow> world \<Rightarrow> outcome" where
  "HGEMM_CHECK_EQ what x y w = HGEMM_CHECK what (x = y) w"

definition HGEMM_CHECK_GT :: "string \<Rightarrow> size_t \<Rightarrow> size_t \<Rightarrow> world \<Rightarrow> outcome" where
  "HGEMM_CHECK_GT what x y w = HGEMM_CHECK what (y < x) w"

definition HGEMM_CHECK_CUDART_ERROR :: "cudaError_t \<times> world \<Rightarrow> outcome" where
  "HGEMM_CHECK_CUDART_ERROR r =
     (case r of (err, w) \<Rightarrow> if err = cudaSuccess then Returns w else Aborts (CudartError err) w)"

subsection \<open>The CUDA runtime and the allocator\<close>

text \<open>
  The runtime calls the class makes, at the granularity of one \<^verbatim>\<open>half\<close> (every byte count
  in the source is a multiple of \<^verbatim>\<open>sizeof(half)\<close>). A copy or fill of \<open>count\<close> bytes touches
  the first \<open>count div 2\<close> elements of the destination; a pointer that is not the start of
  a live array, or a count past its end, is reported as \<^verbatim>\<open>cudaErrorInvalidValue\<close>. With valid
  arguments a copy or a fill succeeds: the device itself does not fail.
\<close>

definition sizeof_half :: size_t where
  "sizeof_half = 2"

datatype cudaMemcpyKind = cudaMemcpyHostToDevice | cudaMemcpyDeviceToHost

definition copy_halfs :: "nat \<Rightarrow> half list \<Rightarrow> half list \<Rightarrow> half list" where
  "copy_halfs k src dst = take k src @ drop k dst"

definition cudaMemcpy :: "ptr \<Rightarrow> ptr \<Rightarrow> size_t \<Rightarrow> cudaMemcpyKind \<Rightarrow> world \<Rightarrow> cudaError_t \<times> world" where
  "cudaMemcpy dst src count kind w =
     (let k = unat count div 2 in
      case kind of
        cudaMemcpyHostToDevice \<Rightarrow>
          (case (gmem w dst, heap w src) of
             (Some d, Some s) \<Rightarrow>
               if k \<le> length d \<and> k \<le> length s
               then (cudaSuccess, w\<lparr>gmem := (gmem w)(dst \<mapsto> copy_halfs k s d)\<rparr>)
               else (cudaErrorInvalidValue, w)
           | _ \<Rightarrow> (cudaErrorInvalidValue, w))
      | cudaMemcpyDeviceToHost \<Rightarrow>
          (case (heap w dst, gmem w src) of
             (Some d, Some s) \<Rightarrow>
               if k \<le> length d \<and> k \<le> length s
               then (cudaSuccess, w\<lparr>heap := (heap w)(dst \<mapsto> copy_halfs k s d)\<rparr>)
               else (cudaErrorInvalidValue, w)
           | _ \<Rightarrow> (cudaErrorInvalidValue, w)))"

text \<open>\<^verbatim>\<open>cudaMemset\<close> writes one byte value everywhere: both bytes of each half.\<close>

definition byte_pair :: "8 word \<Rightarrow> half" where
  "byte_pair v = push_bit 8 (ucast v) OR ucast v"

definition cudaMemset :: "ptr \<Rightarrow> 8 word \<Rightarrow> size_t \<Rightarrow> world \<Rightarrow> cudaError_t \<times> world" where
  "cudaMemset devPtr v count w =
     (let k = unat count div 2 in
      case gmem w devPtr of
        Some d \<Rightarrow>
          if k \<le> length d
          then (cudaSuccess, w\<lparr>gmem := (gmem w)(devPtr \<mapsto> replicate k (byte_pair v) @ drop k d)\<rparr>)
          else (cudaErrorInvalidValue, w)
      | None \<Rightarrow> (cudaErrorInvalidValue, w))"

text \<open>
  What an allocation returns is the environment's choice: nothing (out of memory), or an
  address together with whatever the fresh memory happens to hold. \<^verbatim>\<open>cudaMalloc\<close> leaves
  the pointer variable alone when it fails. \<^verbatim>\<open>new half[n]\<close> throws when \<open>n * sizeof(half)\<close>
  does not fit in \<^verbatim>\<open>size_t\<close>, before asking for memory.
\<close>

type_synonym grant = "(ptr \<times> (nat \<Rightarrow> half)) option"

definition cudaMalloc :: "grant \<Rightarrow> ptr \<Rightarrow> size_t \<Rightarrow> world \<Rightarrow> cudaError_t \<times> ptr \<times> world" where
  "cudaMalloc g old nbytes w =
     (case g of
        None \<Rightarrow> (cudaErrorMemoryAllocation, old, w)
      | Some (p, junk) \<Rightarrow>
          (cudaSuccess, p, w\<lparr>gmem := (gmem w)(p \<mapsto> map junk [0..<unat nbytes div 2])\<rparr>))"

definition new_half_array :: "grant \<Rightarrow> size_t \<Rightarrow> world \<Rightarrow> (ptr \<times> world) option" where
  "new_half_array g n w =
     (if 2 ^ 64 \<le> unat n * 2 then None
      else case g of
        None \<Rightarrow> None
      | Some (p, junk) \<Rightarrow> Some (p, w\<lparr>heap := (heap w)(p \<mapsto> map junk [0..<unat n])\<rparr>))"

text \<open>The environment of a constructor call: the two allocations, and the stream of
  values \<^verbatim>\<open>uniform(engine)\<close> yields for given bounds (\<open>uniform lo hi i\<close> is the \<open>i\<close>-th draw).\<close>

record env =
  host_grant :: grant
  dev_grant :: grant
  uniform :: "ieee \<Rightarrow> ieee \<Rightarrow> nat \<Rightarrow> ieee"

section \<open>The class \<^verbatim>\<open>Matrix\<close>\<close>

definition getRow :: "Matrix \<Rightarrow> size_t" where
  "getRow m = m_row m"

definition getCol :: "Matrix \<Rightarrow> size_t" where
  "getCol m = m_col m"

definition getElemNum :: "Matrix \<Rightarrow> size_t" where
  "getElemNum m = m_elem_num m"

definition getData :: "Matrix \<Rightarrow> ptr" where
  "getData m = m_data m"

definition getGpuData :: "Matrix \<Rightarrow> ptr" where
  "getGpuData m = m_gpu_data m"

text \<open>An assignment to a data member of \<^verbatim>\<open>*this\<close>.\<close>

definition update_this :: "ptr \<Rightarrow> (Matrix \<Rightarrow> Matrix) \<Rightarrow> world \<Rightarrow> world" where
  "update_this this f w =
     (case objs w this of None \<Rightarrow> w | Some m \<Rightarrow> w\<lparr>objs := (objs w)(this \<mapsto> f m)\<rparr>)"

text \<open>
  The loop of the constructor and of \<^verbatim>\<open>random\<close>:
  \<^verbatim>\<open>for (size_t i = 0; i < m_elem_num; ++i) m_data[i] = __float2half(uniform(engine));\<close>
  The engine is fresh in both, so iteration \<open>i\<close> stores the \<open>i\<close>-th draw.
\<close>

function fill_loop :: "(nat \<Rightarrow> ieee) \<Rightarrow> ptr \<Rightarrow> size_t \<Rightarrow> world \<Rightarrow> outcome" where
  "fill_loop draw this i w =
     (case objs w this of
        None \<Rightarrow> Aborts Fault w
      | Some m \<Rightarrow>
          if i < m_elem_num m then
            (case heap w (m_data m) of
               None \<Rightarrow> Aborts Fault w
             | Some h \<Rightarrow>
                 if unat i < length h
                 then fill_loop draw this (i + 1)
                        (w\<lparr>heap := (heap w)(m_data m \<mapsto> h[unat i := float2half (draw (unat i))])\<rparr>)
                 else Aborts Fault w)
          else Returns w)"
  by pat_completeness auto
termination
proof (relation "measure (\<lambda>(draw, this, i, w).
         case objs w this of None \<Rightarrow> 0 | Some m \<Rightarrow> unat (m_elem_num m) - unat i)")
  show "wf (measure (\<lambda>(draw, this, i, w).
         case objs w this of None \<Rightarrow> 0 | Some m \<Rightarrow> unat (m_elem_num m) - unat i))"
    by simp
next
  fix draw :: "nat \<Rightarrow> ieee" and this i :: "64 word" and w :: world and m h
  assume m: "objs w this = Some m" and lt: "i < m_elem_num m"
  from lt have less: "unat i < unat (m_elem_num m)"
    by (simp add: word_less_nat_alt)
  have "unat (m_elem_num m) < 2 ^ LENGTH(64)"
    by (rule unsigned_less)
  with less have "unat i + unat (1 :: 64 word) < 2 ^ LENGTH(64)"
    by simp
  then have "unat (i + 1) = unat i + unat (1 :: 64 word)"
    by (simp only: unat_add_lem)
  with less show "((draw, this, i + 1,
       w\<lparr>heap := (heap w)(m_data m \<mapsto> h[unat i := float2half (draw (unat i))])\<rparr>),
      (draw, this, i, w)) \<in> measure (\<lambda>(draw, this, i, w).
         case objs w this of None \<Rightarrow> 0 | Some m \<Rightarrow> unat (m_elem_num m) - unat i)"
    using m by simp
qed

declare fill_loop.simps [simp del]

text \<open>The constructor, with the default member initialisers of the class first.\<close>

definition Matrix_ctor ::
    "env \<Rightarrow> ptr \<Rightarrow> size_t \<Rightarrow> size_t \<Rightarrow> string \<Rightarrow> ieee \<Rightarrow> ieee \<Rightarrow> world \<Rightarrow> outcome" where
  "Matrix_ctor ev this row col name mn mx w =
     (let m0 = \<lparr>m_row = row, m_col = col, m_name = name, m_min = mn, m_max = mx,
                m_elem_num = 0, m_data = 0, m_gpu_data = 0,
                m_max_diff = Finite False 0, m_avg_diff = Finite False 0\<rparr>;
          w0 = w\<lparr>objs := (objs w)(this \<mapsto> m0)\<rparr>
      in
      and_then (HGEMM_CHECK_GT ''m_row > 0'' row 0 w0) (\<lambda>w1.
      and_then (HGEMM_CHECK_GT ''m_col > 0'' col 0 w1) (\<lambda>w2.
      let n = row * col;
          w3 = update_this this (\<lambda>m. m\<lparr>m_elem_num := n\<rparr>) w2
      in
      and_then (HGEMM_CHECK_GT ''m_elem_num > 0'' n 0 w3) (\<lambda>w4.
      case new_half_array (host_grant ev) n w4 of
        None \<Rightarrow> Aborts BadAlloc w4
      | Some (p, w5) \<Rightarrow>
      let w6 = update_this this (\<lambda>m. m\<lparr>m_data := p\<rparr>) w5 in
      and_then (HGEMM_CHECK ''m_data'' (p \<noteq> 0) w6) (\<lambda>w7.
      case cudaMalloc (dev_grant ev) 0 (n * sizeof_half) w7 of (err, q, w8) \<Rightarrow>
      let w9 = update_this this (\<lambda>m. m\<lparr>m_gpu_data := q\<rparr>) w8 in
      and_then (HGEMM_CHECK_CUDART_ERROR (err, w9)) (\<lambda>w10.
      and_then (HGEMM_CHECK ''m_gpu_data'' (q \<noteq> 0) w10) (\<lambda>w11.
      and_then (fill_loop (uniform ev mn mx) this 0 w11) (\<lambda>w12.
      HGEMM_CHECK_CUDART_ERROR
        (cudaMemcpy q p (n * sizeof_half) cudaMemcpyHostToDevice w12)))))))))"

definition moveToHost :: "ptr \<Rightarrow> world \<Rightarrow> outcome" where
  "moveToHost this w =
     (case objs w this of
        None \<Rightarrow> Aborts Fault w
      | Some m \<Rightarrow>
          HGEMM_CHECK_CUDART_ERROR
            (cudaMemcpy (m_data m) (m_gpu_data m) (m_elem_num m * sizeof_half)
               cudaMemcpyDeviceToHost w))"

definition zeros :: "ptr \<Rightarrow> world \<Rightarrow> outcome" where
  "zeros this w =
     (case objs w this of
        None \<Rightarrow> Aborts Fault w
      | Some m \<Rightarrow>
          and_then
            (HGEMM_CHECK_CUDART_ERROR
               (cudaMemset (m_gpu_data m) 0x00 (m_elem_num m * sizeof_half) w))
            (moveToHost this))"

text \<open>\<^verbatim>\<open>random(min, max)\<close>; the name \<open>random\<close> is taken in HOL.\<close>

definition random_matrix ::
    "(ieee \<Rightarrow> ieee \<Rightarrow> nat \<Rightarrow> ieee) \<Rightarrow> ptr \<Rightarrow> ieee \<Rightarrow> ieee \<Rightarrow> world \<Rightarrow> outcome" where
  "random_matrix unif this mn mx w =
     and_then (fill_loop (unif mn mx) this 0 w) (moveToHost this)"

definition tearUp :: "ptr \<Rightarrow> ptr \<Rightarrow> world \<Rightarrow> outcome" where
  "tearUp this base w =
     (case objs w this of
        None \<Rightarrow> Aborts Fault w
      | Some m \<Rightarrow>
          and_then (HGEMM_CHECK ''base'' (base \<noteq> 0) w) (\<lambda>w1.
          case objs w1 base of
            None \<Rightarrow> Aborts Fault w1
          | Some b \<Rightarrow>
              and_then (HGEMM_CHECK_EQ ''m_row == base->getRow()'' (m_row m) (getRow b) w1) (\<lambda>w2.
              and_then (HGEMM_CHECK_EQ ''m_col == base->getCol()'' (m_col m) (getCol b) w2) (\<lambda>w3.
              HGEMM_CHECK_CUDART_ERROR
                (cudaMemcpy (m_gpu_data m) (getData b) (m_elem_num m * sizeof_half)
                   cudaMemcpyHostToDevice w3)))))"

text \<open>
  The loop of \<^verbatim>\<open>checkValue\<close>. The local \<^verbatim>\<open>diff\<close> is a \<^verbatim>\<open>float\<close>: the \<^verbatim>\<open>double\<close> the cast
  produces is narrowed again by the assignment. Both statistics are members of \<^verbatim>\<open>*this\<close>
  and are written in every iteration.
\<close>

definition abs_diff :: "half \<Rightarrow> half \<Rightarrow> ieee" where
  "abs_diff a b =
     double_to_float (float_to_double (fabs (fsub binary32 (half2float a) (half2float b))))"

function checkValue_loop :: "ptr \<Rightarrow> ptr \<Rightarrow> size_t \<Rightarrow> world \<Rightarrow> outcome" where
  "checkValue_loop this base i w =
     (case objs w this of
        None \<Rightarrow> Aborts Fault w
      | Some m \<Rightarrow>
          if i < m_elem_num m then
            (case objs w base of
               None \<Rightarrow> Aborts Fault w
             | Some b \<Rightarrow>
                 (case (heap w (m_data m), heap w (getData b)) of
                    (Some x, Some y) \<Rightarrow>
                      if unat i < length x \<and> unat i < length y then
                        let diff = abs_diff (x ! unat i) (y ! unat i);
                            w1 = update_this this
                                   (\<lambda>m. m\<lparr>m_max_diff := std_max (m_max_diff m) diff\<rparr>) w;
                            w2 = update_this this
                                   (\<lambda>m. m\<lparr>m_avg_diff := fadd binary32 (m_avg_diff m) diff\<rparr>) w1
                        in checkValue_loop this base (i + 1) w2
                      else Aborts Fault w
                  | _ \<Rightarrow> Aborts Fault w))
          else Returns w)"
  by pat_completeness auto
termination
proof (relation "measure (\<lambda>(this, base, i, w).
         case objs w this of None \<Rightarrow> 0 | Some m \<Rightarrow> unat (m_elem_num m) - unat i)")
  show "wf (measure (\<lambda>(this, base, i, w).
         case objs w this of None \<Rightarrow> 0 | Some m \<Rightarrow> unat (m_elem_num m) - unat i))"
    by simp
next
  fix this base i :: "64 word" and w :: world and m b x y xa xb xc
  assume m: "objs w this = Some m" and lt: "i < m_elem_num m"
    and xb: "xb = update_this this
       (\<lambda>m. m\<lparr>m_max_diff := std_max (m_max_diff m) xa\<rparr>) w"
    and xc: "xc = update_this this
       (\<lambda>m. m\<lparr>m_avg_diff := fadd binary32 (m_avg_diff m) xa\<rparr>) xb"
  from lt have less: "unat i < unat (m_elem_num m)"
    by (simp add: word_less_nat_alt)
  have "unat (m_elem_num m) < 2 ^ LENGTH(64)"
    by (rule unsigned_less)
  with less have "unat i + unat (1 :: 64 word) < 2 ^ LENGTH(64)"
    by simp
  then have "unat (i + 1) = unat i + unat (1 :: 64 word)"
    by (simp only: unat_add_lem)
  with less show "((this, base, i + 1, xc), (this, base, i, w)) \<in> measure (\<lambda>(this, base, i, w).
         case objs w this of None \<Rightarrow> 0 | Some m \<Rightarrow> unat (m_elem_num m) - unat i)"
    using m by (simp add: xb xc update_this_def)
qed

declare checkValue_loop.simps [simp del]

definition checkValue :: "ptr \<Rightarrow> ptr \<Rightarrow> world \<Rightarrow> outcome" where
  "checkValue this base w =
     (case objs w this of
        None \<Rightarrow> Aborts Fault w
      | Some m \<Rightarrow>
          and_then (HGEMM_CHECK ''base'' (base \<noteq> 0) w) (\<lambda>w1.
          case objs w1 base of
            None \<Rightarrow> Aborts Fault w1
          | Some b \<Rightarrow>
              and_then (HGEMM_CHECK_EQ ''m_row == base->getRow()'' (m_row m) (getRow b) w1) (\<lambda>w2.
              and_then (HGEMM_CHECK_EQ ''m_col == base->getCol()'' (m_col m) (getCol b) w2) (\<lambda>w3.
              let w4 = update_this this (\<lambda>m. m\<lparr>m_max_diff := Finite False 0\<rparr>) w3;
                  w5 = update_this this (\<lambda>m. m\<lparr>m_avg_diff := Finite False 0\<rparr>) w4
              in
              and_then (checkValue_loop this base 0 w5) (\<lambda>w6.
              Returns (update_this this
                (\<lambda>m. m\<lparr>m_avg_diff :=
                   double_to_float (fdiv binary64 (float_to_double (m_avg_diff m))
                     (size_to_double (m_elem_num m)))\<rparr>) w6))))))"

section \<open>Observations and the class invariant\<close>

text \<open>The content of the host buffer and of the device buffer of the object at an
  address, and its two statistics.\<close>

definition host_of :: "world \<Rightarrow> ptr \<Rightarrow> half list option" where
  "host_of w this = (case objs w this of None \<Rightarrow> None | Some m \<Rightarrow> heap w (m_data m))"

definition device_of :: "world \<Rightarrow> ptr \<Rightarrow> half list option" where
  "device_of w this = (case objs w this of None \<Rightarrow> None | Some m \<Rightarrow> gmem w (m_gpu_data m))"

definition stats_of :: "world \<Rightarrow> ptr \<Rightarrow> (ieee \<times> ieee) option" where
  "stats_of w this =
     (case objs w this of None \<Rightarrow> None | Some m \<Rightarrow> Some (m_max_diff m, m_avg_diff m))"

text \<open>
  What holds of an object once its constructor has returned (\<open>Matrix_ctor\<close> establishes
  it, below): an address that is not null, positive dimensions, their product as element count, a byte size that fits
  \<^verbatim>\<open>size_t\<close>, and two live arrays of that many elements behind non-null pointers.
\<close>

definition constructed :: "world \<Rightarrow> ptr \<Rightarrow> bool" where
  "constructed w this =
     (case objs w this of
        None \<Rightarrow> False
      | Some m \<Rightarrow>
          this \<noteq> 0 \<and> 0 < m_row m \<and> 0 < m_col m \<and> m_elem_num m = m_row m * m_col m \<and>
          0 < m_elem_num m \<and> unat (m_elem_num m) * 2 < 2 ^ 64 \<and>
          m_data m \<noteq> 0 \<and> m_gpu_data m \<noteq> 0 \<and>
          (case heap w (m_data m) of
             None \<Rightarrow> False | Some h \<Rightarrow> length h = unat (m_elem_num m)) \<and>
          (case gmem w (m_gpu_data m) of
             None \<Rightarrow> False | Some d \<Rightarrow> length d = unat (m_elem_num m)))"

definition elem_count :: "world \<Rightarrow> ptr \<Rightarrow> size_t" where
  "elem_count w this = (case objs w this of None \<Rightarrow> 0 | Some m \<Rightarrow> getElemNum m)"

subsection \<open>The statistics of \<^verbatim>\<open>checkValue\<close>, in the words of the specification\<close>

text \<open>
  For every element index the absolute difference of the two host values, each widened
  from half precision before subtracting; the running maximum and the running sum of
  these, both starting from \<open>0.0\<close> and kept in \<^verbatim>\<open>float\<close>; and the sum divided by the element
  count, a division the source does in \<^verbatim>\<open>double\<close> and stores back into a \<^verbatim>\<open>float\<close>.
\<close>

definition abs_diffs :: "half list \<Rightarrow> half list \<Rightarrow> ieee list" where
  "abs_diffs x y = map2 (\<lambda>a b. fabs (fsub binary32 (half2float a) (half2float b))) x y"

definition running_max :: "ieee list \<Rightarrow> ieee" where
  "running_max ds = foldl std_max (Finite False 0) ds"

definition running_sum :: "ieee list \<Rightarrow> ieee" where
  "running_sum ds = foldl (fadd binary32) (Finite False 0) ds"

definition mean_of :: "ieee \<Rightarrow> size_t \<Rightarrow> ieee" where
  "mean_of s n = double_to_float (fdiv binary64 (float_to_double s) (size_to_double n))"

text \<open>The differences the loop of the source sees from index \<open>i\<close> on.\<close>

definition diffs_from :: "half list \<Rightarrow> half list \<Rightarrow> nat \<Rightarrow> nat \<Rightarrow> ieee list" where
  "diffs_from x y i n = map (\<lambda>j. abs_diff (x ! j) (y ! j)) [i..<n]"

text \<open>A value with a clear sign bit that is not a NaN (so \<open>+0\<close>, a positive number or
  \<open>+\<infinity>\<close>), and a value that is a number.\<close>

fun sign_clear :: "ieee \<Rightarrow> bool" where
  "sign_clear NaN = False"
| "sign_clear (Infinity s) = (\<not> s)"
| "sign_clear (Finite s m) = (\<not> s \<and> 0 \<le> m)"

fun is_finite :: "ieee \<Rightarrow> bool" where
  "is_finite (Finite s m) = True"
| "is_finite x = False"

subsection \<open>Relations between two objects\<close>

definition same_shape :: "world \<Rightarrow> ptr \<Rightarrow> ptr \<Rightarrow> bool" where
  "same_shape w this base =
     (case (objs w this, objs w base) of
        (Some m, Some b) \<Rightarrow> getRow m = getRow b \<and> getCol m = getCol b
      | _ \<Rightarrow> False)"

definition shape_mismatch :: "world \<Rightarrow> ptr \<Rightarrow> ptr \<Rightarrow> bool" where
  "shape_mismatch w this base =
     (case (objs w this, objs w base) of
        (Some m, Some b) \<Rightarrow> getRow m \<noteq> getRow b \<or> getCol m \<noteq> getCol b
      | _ \<Rightarrow> False)"

definition same_device_buffer :: "world \<Rightarrow> ptr \<Rightarrow> ptr \<Rightarrow> bool" where
  "same_device_buffer w this base =
     (case (objs w this, objs w base) of
        (Some m, Some b) \<Rightarrow> getGpuData m = getGpuData b
      | _ \<Rightarrow> False)"

text \<open>The state of an object with its two statistics overwritten.\<close>

definition with_stats :: "ptr \<Rightarrow> ieee \<Rightarrow> ieee \<Rightarrow> world \<Rightarrow> world" where
  "with_stats this mx av w = update_this this (\<lambda>m. m\<lparr>m_max_diff := mx, m_avg_diff := av\<rparr>) w"

text \<open>How a call ended: with a failed check and the state untouched, or by returning.\<close>

fun aborts_on_check :: "outcome \<Rightarrow> world \<Rightarrow> bool" where
  "aborts_on_check (Aborts (CheckFailed what) w') w = (w' = w)"
| "aborts_on_check r w = False"

fun returns :: "outcome \<Rightarrow> bool" where
  "returns (Returns w) = True"
| "returns (Aborts e w) = False"

text \<open>The object the constructor leaves behind, and the content it generates: one
  converted draw per element.\<close>

definition constructed_matrix ::
    "size_t \<Rightarrow> size_t \<Rightarrow> string \<Rightarrow> ieee \<Rightarrow> ieee \<Rightarrow> ptr \<Rightarrow> ptr \<Rightarrow> Matrix" where
  "constructed_matrix row col name mn mx hp dp =
     \<lparr>m_row = row, m_col = col, m_name = name, m_min = mn, m_max = mx,
      m_elem_num = row * col, m_data = hp, m_gpu_data = dp,
      m_max_diff = Finite False 0, m_avg_diff = Finite False 0\<rparr>"

definition drawn :: "env \<Rightarrow> ieee \<Rightarrow> ieee \<Rightarrow> nat \<Rightarrow> half list" where
  "drawn ev mn mx n = map (\<lambda>j. float2half (uniform ev mn mx j)) [0..<n]"

subsection \<open>A sample state\<close>

text \<open>
  Three matrices. The \<open>1 \<times> 2\<close> one at \<^verbatim>\<open>0x10\<close> holds \<open>[1.0, 2.0]\<close> on the host and
  \<open>[0.0, -1.0]\<close> on the device, as after a kernel has written its device buffer; the
  \<open>1 \<times> 2\<close> one at \<^verbatim>\<open>0x20\<close> holds \<open>[1.5, 1.5]\<close> on both sides, as after construction;
  the one at \<^verbatim>\<open>0x30\<close> is \<open>2 \<times> 1\<close> and all zero.
\<close>

definition sample_matrix :: "size_t \<Rightarrow> size_t \<Rightarrow> ptr \<Rightarrow> ptr \<Rightarrow> Matrix" where
  "sample_matrix r c p q =
     \<lparr>m_row = r, m_col = c, m_name = ''Matrix'', m_min = Finite True 2, m_max = Finite False 2,
      m_elem_num = r * c, m_data = p, m_gpu_data = q,
      m_max_diff = Finite False 0, m_avg_diff = Finite False 0\<rparr>"

definition sample_world :: world where
  "sample_world =
     \<lparr>heap = [0x1000 \<mapsto> [0x3C00, 0x4000], 0x1100 \<mapsto> [0x3E00, 0x3E00], 0x1200 \<mapsto> [0, 0]],
      gmem = [0x2000 \<mapsto> [0x0000, 0xBC00], 0x2100 \<mapsto> [0x3E00, 0x3E00], 0x2200 \<mapsto> [0, 0]],
      objs = [0x10 \<mapsto> sample_matrix 1 2 0x1000 0x2000, 0x20 \<mapsto> sample_matrix 1 2 0x1100 0x2100,
              0x30 \<mapsto> sample_matrix 2 1 0x1200 0x2200]\<rparr>"

text \<open>
  Two \<open>1 \<times> 1\<close> matrices holding \<open>+\<infinity>\<close> (pattern \<^verbatim>\<open>0x7C00\<close>) on both sides, which is what the
  constructor leaves when the bounds are \<open>[70000, 80000)\<close>: every draw is beyond the largest
  half.
\<close>

definition overflow_world :: world where
  "overflow_world =
     \<lparr>heap = [0x1000 \<mapsto> [0x7C00], 0x1100 \<mapsto> [0x7C00]],
      gmem = [0x2000 \<mapsto> [0x7C00], 0x2100 \<mapsto> [0x7C00]],
      objs = [0x10 \<mapsto> sample_matrix 1 1 0x1000 0x2000, 0x20 \<mapsto> sample_matrix 1 1 0x1100 0x2100]\<rparr>"

text \<open>
  Two \<open>1 \<times> 3\<close> matrices: one holds \<open>1.5\<close> everywhere (pattern \<^verbatim>\<open>0x3E00\<close>), the other the
  subnormal \<open>-2\<^sup>-\<^sup>2\<^sup>2\<close> (pattern \<^verbatim>\<open>0x8004\<close>).
\<close>

definition rounding_world :: world where
  "rounding_world =
     \<lparr>heap = [0x1000 \<mapsto> [0x3E00, 0x3E00, 0x3E00], 0x1100 \<mapsto> [0x8004, 0x8004, 0x8004]],
      gmem = [0x2000 \<mapsto> [0x3E00, 0x3E00, 0x3E00], 0x2100 \<mapsto> [0x8004, 0x8004, 0x8004]],
      objs = [0x10 \<mapsto> sample_matrix 1 3 0x1000 0x2000, 0x20 \<mapsto> sample_matrix 1 3 0x1100 0x2100]\<rparr>"

text \<open>
  The state before any matrix exists, and an environment in which both allocations
  succeed and every draw is the same value \<open>v\<close>.
\<close>

definition empty_world :: world where
  "empty_world = \<lparr>heap = Map.empty, gmem = Map.empty, objs = Map.empty\<rparr>"

definition sample_env :: "rat \<Rightarrow> env" where
  "sample_env v =
     \<lparr>host_grant = Some (0x1100, \<lambda>i. 0), dev_grant = Some (0x2100, \<lambda>i. 0),
      uniform = (\<lambda>lo hi i. Finite False v)\<rparr>"

section \<open>Basic facts\<close>

lemma unat_bytes:
  assumes "unat (n :: 64 word) * 2 < 2 ^ 64"
  shows "unat (n * sizeof_half) div 2 = unat n"
proof -
  have "unat (2 :: 64 word) = 2" by simp
  with assms have "unat n * unat (2 :: 64 word) < 2 ^ LENGTH(64)" by simp
  then have "unat (n * 2) = unat n * unat (2 :: 64 word)"
    by (simp only: unat_mult_lem)
  then show ?thesis by (simp add: sizeof_half_def)
qed

lemma copy_halfs_all: "length s = k \<Longrightarrow> length d = k \<Longrightarrow> copy_halfs k s d = s"
  by (simp add: copy_halfs_def)

lemma world_heap_triv: "heap w p = Some h \<Longrightarrow> w\<lparr>heap := (heap w)(p \<mapsto> h)\<rparr> = w"
  by (simp add: map_upd_triv)

lemma constructedD:
  assumes "constructed w this"
  obtains m h d where "objs w this = Some m" and "heap w (m_data m) = Some h"
    and "gmem w (m_gpu_data m) = Some d" and "length h = unat (m_elem_num m)"
    and "length d = unat (m_elem_num m)" and "unat (m_elem_num m) * 2 < 2 ^ 64"
    and "0 < m_row m" and "0 < m_col m" and "m_elem_num m = m_row m * m_col m"
    and "0 < m_elem_num m" and "m_data m \<noteq> 0" and "m_gpu_data m \<noteq> 0" and "this \<noteq> 0"
  using assms unfolding constructed_def
  by (auto split: option.splits)

lemma constructed_sample_10: "constructed sample_world 0x10"
  by (simp add: constructed_def sample_world_def sample_matrix_def)

lemma constructed_sample_20: "constructed sample_world 0x20"
  by (simp add: constructed_def sample_world_def sample_matrix_def)

subsection \<open>The fill loop stores one draw per element\<close>

lemma fill_loop_result:
  assumes "objs w this = Some m" and "heap w (m_data m) = Some h"
    and "length h = unat (m_elem_num m)" and "i \<le> m_elem_num m"
  shows "fill_loop draw this i w =
    Returns (w\<lparr>heap := (heap w)(m_data m \<mapsto>
       take (unat i) h @ map (\<lambda>j. float2half (draw j)) [unat i..<unat (m_elem_num m)])\<rparr>)"
  using assms
proof (induction "unat (m_elem_num m) - unat i" arbitrary: i w h)
  case 0
  then have "unat i = unat (m_elem_num m)"
    by (simp add: word_le_nat_alt)
  then have eq: "i = m_elem_num m" by (simp add: word_unat_eq_iff)
  then have "\<not> i < m_elem_num m" by simp
  then have "fill_loop draw this i w = Returns w"
    using 0 by (subst fill_loop.simps) simp
  moreover have "take (unat i) h @ map (\<lambda>j. float2half (draw j)) [unat i..<unat (m_elem_num m)] = h"
    using 0 eq by simp
  ultimately show ?case using world_heap_triv [OF 0(3)] by (simp only:)
next
  case (Suc k)
  then have lt: "unat i < unat (m_elem_num m)" by simp
  then have ilt: "i < m_elem_num m" by (simp add: word_less_nat_alt)
  have "unat (m_elem_num m) < 2 ^ LENGTH(64)" by (rule unsigned_less)
  with lt have "unat i + unat (1 :: 64 word) < 2 ^ LENGTH(64)" by simp
  then have "unat (i + 1) = unat i + unat (1 :: 64 word)" by (simp only: unat_add_lem)
  then have suc: "unat (i + 1) = Suc (unat i)" by simp
  let ?h = "h[unat i := float2half (draw (unat i))]"
  let ?w = "w\<lparr>heap := (heap w)(m_data m \<mapsto> ?h)\<rparr>"
  have step: "fill_loop draw this i w = fill_loop draw this (i + 1) ?w"
    using Suc.prems ilt lt by (subst fill_loop.simps) simp
  have le: "i + 1 \<le> m_elem_num m" using ilt by (rule inc_le)
  have "fill_loop draw this (i + 1) ?w =
    Returns (?w\<lparr>heap := (heap ?w)(m_data m \<mapsto>
       take (unat (i + 1)) ?h @ map (\<lambda>j. float2half (draw j)) [unat (i + 1)..<unat (m_elem_num m)])\<rparr>)"
  proof (rule Suc.hyps(1))
    show "k = unat (m_elem_num m) - unat (i + 1)" using Suc.hyps(2) suc by simp
    show "objs ?w this = Some m" using Suc.prems by simp
    show "heap ?w (m_data m) = Some ?h" by simp
    show "length ?h = unat (m_elem_num m)" using Suc.prems by simp
    show "i + 1 \<le> m_elem_num m" by (rule le)
  qed
  moreover have "take (Suc (unat i)) ?h = take (unat i) h @ [float2half (draw (unat i))]"
    using lt Suc.prems by (simp add: take_Suc_conv_app_nth)
  moreover have "[unat i..<unat (m_elem_num m)] = unat i # [Suc (unat i)..<unat (m_elem_num m)]"
    using lt by (simp add: upt_conv_Cons)
  ultimately show ?case using step suc by simp
qed

subsection \<open>What each transfer method returns on a constructed object\<close>

lemma moveToHost_result:
  assumes "objs w this = Some m" and "heap w (m_data m) = Some h"
    and "gmem w (m_gpu_data m) = Some d" and "length h = unat (m_elem_num m)"
    and "length d = unat (m_elem_num m)" and "unat (m_elem_num m) * 2 < 2 ^ 64"
  shows "moveToHost this w = Returns (w\<lparr>heap := (heap w)(m_data m \<mapsto> d)\<rparr>)"
  using assms
  by (simp add: moveToHost_def cudaMemcpy_def unat_bytes copy_halfs_all HGEMM_CHECK_CUDART_ERROR_def)

lemma zeros_result:
  assumes "objs w this = Some m" and "heap w (m_data m) = Some h"
    and "gmem w (m_gpu_data m) = Some d" and "length h = unat (m_elem_num m)"
    and "length d = unat (m_elem_num m)" and "unat (m_elem_num m) * 2 < 2 ^ 64"
  shows "zeros this w =
    Returns (w\<lparr>gmem := (gmem w)(m_gpu_data m \<mapsto> replicate (unat (m_elem_num m)) 0),
              heap := (heap w)(m_data m \<mapsto> replicate (unat (m_elem_num m)) 0)\<rparr>)"
proof -
  let ?z = "replicate (unat (m_elem_num m)) (0 :: half)"
  let ?w1 = "w\<lparr>gmem := (gmem w)(m_gpu_data m \<mapsto> ?z)\<rparr>"
  have bp: "byte_pair 0 = 0" by (simp add: byte_pair_def)
  have "cudaMemset (m_gpu_data m) 0 (m_elem_num m * sizeof_half) w = (cudaSuccess, ?w1)"
    using assms by (simp add: cudaMemset_def unat_bytes bp)
  moreover have "moveToHost this ?w1 = Returns (?w1\<lparr>heap := (heap ?w1)(m_data m \<mapsto> ?z)\<rparr>)"
    by (rule moveToHost_result [where h = h]) (use assms in simp_all)
  ultimately show ?thesis using assms
    by (simp add: zeros_def HGEMM_CHECK_CUDART_ERROR_def)
qed

lemma random_matrix_result:
  assumes "objs w this = Some m" and "heap w (m_data m) = Some h"
    and "gmem w (m_gpu_data m) = Some d" and "length h = unat (m_elem_num m)"
    and "length d = unat (m_elem_num m)" and "unat (m_elem_num m) * 2 < 2 ^ 64"
  shows "random_matrix unif this mn mx w = Returns (w\<lparr>heap := (heap w)(m_data m \<mapsto> d)\<rparr>)"
proof -
  let ?new = "map (\<lambda>j. float2half (unif mn mx j)) [0..<unat (m_elem_num m)]"
  let ?w1 = "w\<lparr>heap := (heap w)(m_data m \<mapsto> ?new)\<rparr>"
  have "fill_loop (unif mn mx) this 0 w = Returns ?w1"
    using fill_loop_result [OF assms(1,2,4), of 0 "unif mn mx"] by simp
  moreover have "moveToHost this ?w1 = Returns (?w1\<lparr>heap := (heap ?w1)(m_data m \<mapsto> d)\<rparr>)"
    by (rule moveToHost_result [where h = "?new"]) (use assms in simp_all)
  ultimately show ?thesis by (simp add: random_matrix_def)
qed

lemma tearUp_result:
  assumes "objs w this = Some m" and "gmem w (m_gpu_data m) = Some d"
    and "length d = unat (m_elem_num m)" and "unat (m_elem_num m) * 2 < 2 ^ 64"
    and "base \<noteq> 0" and "objs w base = Some b" and "heap w (m_data b) = Some hb"
    and "length hb = unat (m_elem_num m)" and "m_row m = m_row b" and "m_col m = m_col b"
  shows "tearUp this base w = Returns (w\<lparr>gmem := (gmem w)(m_gpu_data m \<mapsto> hb)\<rparr>)"
  using assms
  by (simp add: tearUp_def HGEMM_CHECK_def HGEMM_CHECK_EQ_def getRow_def getCol_def getData_def
      cudaMemcpy_def unat_bytes copy_halfs_all HGEMM_CHECK_CUDART_ERROR_def)

lemma half2float_zero: "half2float 0 = Finite False 0"
  by (simp add: half2float_def)

section \<open>Facts about rounding\<close>

lemma pow2_powi: "pow2 e = 2 powi e"
  by (simp add: pow2_def power_int_def inverse_eq_divide power_one_over)

lemma pow2_pos: "0 < pow2 e"
  by (simp add: pow2_powi)

lemma pow2_add: "pow2 (a + b) = pow2 a * pow2 b"
  by (simp add: pow2_powi power_int_add)

lemma pow2_nat: "pow2 (int n) = 2 ^ n"
  by (simp add: pow2_def)

lemma pow2_mono: "a \<le> b \<Longrightarrow> pow2 a \<le> pow2 b"
  by (simp add: pow2_powi power_int_increasing)

lemma pow2_strict_mono: "a < b \<Longrightarrow> pow2 a < pow2 b"
  by (simp add: pow2_powi power_int_strict_increasing)

lemma pow2_less_cancel: "pow2 a < pow2 b \<Longrightarrow> a < b"
  using pow2_mono [of b a] by (cases "a < b") auto

lemma pow2_zero: "pow2 0 = 1"
  by (simp add: pow2_def)

lemma pow2_succ: "pow2 (e + 1) = 2 * pow2 e"
  using pow2_add [of e 1] by (simp add: pow2_def)

lemma bitlen_rat_bounds:
  assumes "0 < a"
  shows "pow2 (bitlen a - 1) \<le> of_int a" and "(of_int a :: rat) < pow2 (bitlen a)"
proof -
  from assms have b1: "1 \<le> bitlen a" by (auto simp: bitlen_alt_def)
  from bitlen_bounds [OF assms] have lo: "2 ^ nat (bitlen a - 1) \<le> a" and hi: "a < 2 ^ nat (bitlen a)"
    by auto
  from lo have "(of_int (2 ^ nat (bitlen a - 1)) :: rat) \<le> of_int a"
    by (simp only: of_int_le_iff)
  then show "pow2 (bitlen a - 1) \<le> of_int a"
    using b1 by (simp add: pow2_def)
  from hi have "(of_int a :: rat) < of_int (2 ^ nat (bitlen a))"
    by (simp only: of_int_less_iff)
  then show "(of_int a :: rat) < pow2 (bitlen a)"
    using b1 by (simp add: pow2_def)
qed

lemma ilog2_bounds:
  assumes "0 < x"
  shows "pow2 (ilog2 x) \<le> x" and "x < pow2 (ilog2 x + 1)"
proof -
  obtain a b where q: "quotient_of x = (a, b)" by (cases "quotient_of x")
  then have bpos: "0 < b" by (rule quotient_of_denom_pos)
  from q have xeq: "x = of_int a / of_int b" by (rule quotient_of_div)
  with assms bpos have apos: "0 < a"
    by (simp add: zero_less_divide_iff)
  let ?d = "bitlen a - bitlen b"
  note A = bitlen_rat_bounds [OF apos] and B = bitlen_rat_bounds [OF bpos]
  have bq: "(0 :: rat) < of_int b" using bpos by simp
  have "x * of_int b = of_int a" using xeq bq by simp
  have up: "x < pow2 (?d + 1)"
  proof -
    have "of_int a < pow2 (bitlen a)" by (rule A(2))
    also have "pow2 (bitlen a) = pow2 (?d + 1) * pow2 (bitlen b - 1)"
      by (simp add: pow2_add [symmetric])
    also have "\<dots> \<le> pow2 (?d + 1) * of_int b"
      using B(1) pow2_pos [of "?d + 1"] by (simp add: mult_left_mono)
    finally have "of_int a < pow2 (?d + 1) * of_int b" .
    then show ?thesis using xeq bq by (simp add: pos_divide_less_eq)
  qed
  have low: "pow2 (?d - 1) \<le> x"
  proof -
    have "pow2 (?d - 1) * of_int b \<le> pow2 (?d - 1) * pow2 (bitlen b)"
      using B(2) pow2_pos [of "?d - 1"] by (simp add: mult_left_mono)
    also have "\<dots> = pow2 (bitlen a - 1)"
      by (simp add: pow2_add [symmetric])
    also have "\<dots> \<le> of_int a" by (rule A(1))
    finally have "pow2 (?d - 1) * of_int b \<le> of_int a" .
    then show ?thesis using xeq bq by (simp add: pos_le_divide_eq)
  qed
  have il: "ilog2 x = (if pow2 ?d \<le> x then ?d else ?d - 1)"
    using q by (simp add: ilog2_def Let_def)
  show "pow2 (ilog2 x) \<le> x"
    using il low by auto
  show "x < pow2 (ilog2 x + 1)"
    using il up by (auto simp: not_le)
qed

lemma ilog2_unique:
  assumes "pow2 e \<le> x" and "x < pow2 (e + 1)"
  shows "ilog2 x = e"
proof -
  have xpos: "0 < x" using assms(1) pow2_pos [of e] by simp
  note I = ilog2_bounds [OF xpos]
  have "pow2 e < pow2 (ilog2 x + 1)" using assms(1) I(2) by simp
  then have "e < ilog2 x + 1" by (rule pow2_less_cancel)
  moreover have "pow2 (ilog2 x) < pow2 (e + 1)" using assms(2) I(1) by simp
  then have "ilog2 x < e + 1" by (rule pow2_less_cancel)
  ultimately show ?thesis by simp
qed

lemma round_even_of_int: "round_even (of_int n) = n"
  by (simp add: round_even_def)

lemma round_even_ge: "of_int n \<le> x \<Longrightarrow> n \<le> round_even x"
proof -
  assume "of_int n \<le> x"
  then have "n \<le> \<lfloor>x\<rfloor>" by (simp add: le_floor_iff)
  moreover have "\<lfloor>x\<rfloor> \<le> round_even x" by (simp add: round_even_def Let_def)
  ultimately show ?thesis by simp
qed

lemma round_even_le: "x \<le> of_int n \<Longrightarrow> round_even x \<le> n"
proof (cases "x = of_int n")
  case True
  then show ?thesis by (simp add: round_even_of_int)
next
  case False
  assume "x \<le> of_int n"
  with False have "x < of_int n" by simp
  then have "\<lfloor>x\<rfloor> < n" by (simp add: floor_less_iff)
  moreover have "round_even x \<le> \<lfloor>x\<rfloor> + 1" by (simp add: round_even_def Let_def)
  ultimately show ?thesis by simp
qed

lemma pow2_one: "pow2 1 = 2"
  by (simp add: pow2_def)

text \<open>The pieces of one rounding step, named.\<close>

lemma round_mag_parts:
  fixes fmt :: format and m :: rat
  defines "e \<equiv> max (ilog2 m) (emin fmt)"
  defines "q \<equiv> pow2 (e - int (prec fmt) + 1)"
  defines "k \<equiv> round_even (m / q)"
  assumes mpos: "0 < m"
  shows "quantum fmt m = q" and "round_mag fmt m = of_int k * q" and "0 < q"
    and "pow2 (e + 1) = 2 ^ prec fmt * q" and "0 \<le> k" and "k \<le> 2 ^ prec fmt"
    and "emin fmt \<le> ilog2 m \<Longrightarrow> 1 \<le> prec fmt \<Longrightarrow> pow2 e = 2 ^ (prec fmt - 1) * q"
    and "emin fmt \<le> ilog2 m \<Longrightarrow> 1 \<le> prec fmt \<Longrightarrow> 2 ^ (prec fmt - 1) \<le> k"
proof -
  show Q: "quantum fmt m = q" by (simp add: quantum_def q_def e_def)
  show "round_mag fmt m = of_int k * q" by (simp add: round_mag_def Q k_def)
  show qpos: "0 < q" by (simp add: q_def pow2_pos)
  have "pow2 (e + 1) = pow2 (int (prec fmt) + (e - int (prec fmt) + 1))" by simp
  also have "\<dots> = pow2 (int (prec fmt)) * q" unfolding q_def by (rule pow2_add)
  finally show up: "pow2 (e + 1) = 2 ^ prec fmt * q" by (simp add: pow2_nat)
  have "0 \<le> m / q" using mpos qpos by simp
  then have "of_int 0 \<le> m / q" by simp
  then show "0 \<le> k" unfolding k_def by (rule round_even_ge)
  have "m < pow2 (ilog2 m + 1)" using mpos by (rule ilog2_bounds)
  also have "\<dots> \<le> pow2 (e + 1)" by (rule pow2_mono) (simp add: e_def)
  finally have "m < 2 ^ prec fmt * q" using up by simp
  then have "m / q \<le> 2 ^ prec fmt" using qpos by (simp add: pos_divide_le_eq)
  then have "m / q \<le> of_int (2 ^ prec fmt)" by simp
  then show "k \<le> 2 ^ prec fmt" unfolding k_def by (rule round_even_le)
  {
    assume norm: "emin fmt \<le> ilog2 m" and p1: "1 \<le> prec fmt"
    have "pow2 e = pow2 (int (prec fmt - 1) + (e - int (prec fmt) + 1))"
      using p1 by (simp add: of_nat_diff)
    also have "\<dots> = pow2 (int (prec fmt - 1)) * q" unfolding q_def by (rule pow2_add)
    finally show lo: "pow2 e = 2 ^ (prec fmt - 1) * q" by (simp add: pow2_nat)
    have "e = ilog2 m" using norm by (simp add: e_def)
    then have "pow2 e \<le> m" using ilog2_bounds(1) [OF mpos] by simp
    then have "2 ^ (prec fmt - 1) \<le> m / q" using lo qpos by (simp add: pos_le_divide_eq)
    then have "of_int (2 ^ (prec fmt - 1)) \<le> m / q" by simp
    then show "2 ^ (prec fmt - 1) \<le> k" unfolding k_def by (rule round_even_ge)
  }
qed

lemma round_mag_nonneg: "0 < m \<Longrightarrow> 0 \<le> round_mag fmt m"
  using round_mag_parts(2,3,5) [of m fmt] by simp

lemma round_mag_idem:
  assumes mpos: "0 < m" and p1: "1 \<le> prec fmt" and vpos: "round_mag fmt m \<noteq> 0"
  shows "round_mag fmt (round_mag fmt m) = round_mag fmt m"
proof -
  define e where "e = max (ilog2 m) (emin fmt)"
  define q where "q = pow2 (e - int (prec fmt) + 1)"
  define k where "k = round_even (m / q)"
  define v where "v = round_mag fmt m"
  have v: "v = of_int k * q"
    unfolding v_def k_def q_def e_def by (rule round_mag_parts(2) [OF mpos])
  have P3: "0 < q"
    unfolding q_def e_def by (rule round_mag_parts(3) [OF mpos])
  have P4: "pow2 (e + 1) = 2 ^ prec fmt * q"
    unfolding q_def e_def by (rule round_mag_parts(4) [OF mpos])
  have P5: "0 \<le> k"
    unfolding k_def q_def e_def by (rule round_mag_parts(5) [OF mpos])
  have P6: "k \<le> 2 ^ prec fmt"
    unfolding k_def q_def e_def by (rule round_mag_parts(6) [OF mpos])
  have P7: "emin fmt \<le> ilog2 m \<Longrightarrow> pow2 e = 2 ^ (prec fmt - 1) * q"
    unfolding q_def e_def by (rule round_mag_parts(7) [OF mpos _ p1])
  have P8: "emin fmt \<le> ilog2 m \<Longrightarrow> 2 ^ (prec fmt - 1) \<le> k"
    unfolding k_def q_def e_def by (rule round_mag_parts(8) [OF mpos _ p1])
  have kpos: "0 < k" using vpos P5 v v_def by (cases "k = 0") auto
  then have vgt: "0 < v" using v P3 by simp
  have "\<exists>j. v / quantum fmt v = of_int j"
  proof (cases "k = 2 ^ prec fmt")
    case True
    then have veq: "v = pow2 (e + 1)" using v P4 by simp
    then have "ilog2 v = e + 1"
      by (intro ilog2_unique) (simp_all add: pow2_strict_mono)
    moreover have "emin fmt \<le> e + 1" by (simp add: e_def)
    ultimately have "quantum fmt v = pow2 (e + 1 - int (prec fmt) + 1)"
      by (simp add: quantum_def max_def)
    also have "\<dots> = pow2 (1 + (e - int (prec fmt) + 1))" by (simp add: add.commute)
    also have "\<dots> = 2 * q" unfolding q_def by (simp only: pow2_add pow2_one)
    finally have "v / quantum fmt v = (2 ^ prec fmt * q) / (2 * q)" using veq P4 by simp
    also have "\<dots> = 2 ^ prec fmt / 2" using P3 by simp
    also have "\<dots> = 2 ^ (prec fmt - 1)" using p1 by (cases "prec fmt") simp_all
    also have "\<dots> = of_int (2 ^ (prec fmt - 1))" by simp
    finally show ?thesis by blast
  next
    case False
    with P6 have klt: "k < 2 ^ prec fmt" by simp
    then have "(of_int k :: rat) < of_int (2 ^ prec fmt)" by (simp only: of_int_less_iff)
    then have "v < 2 ^ prec fmt * q" using v P3 by simp
    then have vup: "v < pow2 (e + 1)" using P4 by simp
    have "pow2 (ilog2 v) \<le> v" using vgt by (rule ilog2_bounds)
    with vup have "pow2 (ilog2 v) < pow2 (e + 1)" by simp
    then have le: "ilog2 v \<le> e" using pow2_less_cancel by fastforce
    have "max (ilog2 v) (emin fmt) = e"
    proof (cases "emin fmt \<le> ilog2 m")
      case True
      have "of_int (2 ^ (prec fmt - 1)) \<le> (of_int k :: rat)"
        using P8 [OF True] by (simp only: of_int_le_iff)
      then have "2 ^ (prec fmt - 1) * q \<le> v" using v P3 by simp
      then have "pow2 e \<le> v" using P7 [OF True] by simp
      then have "ilog2 v = e" using vup by (rule ilog2_unique)
      moreover have "emin fmt \<le> e" by (simp add: e_def)
      ultimately show ?thesis by simp
    next
      case False
      then have "e = emin fmt" by (simp add: e_def)
      with le show ?thesis by simp
    qed
    then have "quantum fmt v = q" by (simp add: quantum_def q_def)
    then have "v / quantum fmt v = of_int k" using v P3 by simp
    then show ?thesis by blast
  qed
  then obtain j where j: "v / quantum fmt v = of_int j" by blast
  have qv: "0 < quantum fmt v" by (simp add: quantum_def pow2_pos)
  have "round_mag fmt v = of_int j * quantum fmt v"
    by (simp add: round_mag_def j round_even_of_int)
  also have "\<dots> = v / quantum fmt v * quantum fmt v" by (simp add: j)
  also have "\<dots> = v" using qv by simp
  finally show ?thesis by (simp add: v_def)
qed

lemma fround_idem:
  assumes "0 \<le> m" and "1 \<le> prec fmt" and "fround fmt s m = Finite s' v"
  shows "fround fmt s' v = Finite s' v"
proof (cases "m = 0")
  case True
  with assms(3) show ?thesis by (auto simp: fround_def)
next
  case False
  with assms(1) have mpos: "0 < m" by simp
  from assms(3) False have v: "v = round_mag fmt m" and s: "s' = s"
    and nov: "\<not> pow2 (emax fmt + 1) \<le> round_mag fmt m"
    by (auto simp: fround_def split: if_splits)
  show ?thesis
  proof (cases "v = 0")
    case True
    then show ?thesis by (simp add: fround_def)
  next
    case False
    then have "round_mag fmt v = v"
      using round_mag_idem [OF mpos assms(2)] v by simp
    then show ?thesis using False nov v by (simp add: fround_def)
  qed
qed

lemma fround_cases:
  assumes "0 \<le> m"
  obtains v where "fround fmt s m = Finite s v" and "0 \<le> v" | "fround fmt s m = Infinity s"
proof (cases "m = 0")
  case True
  then have "fround fmt s m = Finite s 0" by (simp add: fround_def)
  then show ?thesis using that(1) by simp
next
  case False
  with assms have "0 < m" by simp
  then have "0 \<le> round_mag fmt m" by (rule round_mag_nonneg)
  then show ?thesis using that False by (cases "pow2 (emax fmt + 1) \<le> round_mag fmt m") (simp_all add: fround_def)
qed

lemma prec_binary32: "1 \<le> prec binary32"
  by (simp add: binary32_def)

lemma double_to_float_fround32:
  assumes "0 \<le> m"
  shows "double_to_float (fround binary32 s m) = fround binary32 s m"
proof (rule fround_cases [OF assms, of binary32 s])
  fix v assume a: "fround binary32 s m = Finite s v" and "0 \<le> v"
  then show ?thesis using fround_idem [OF assms prec_binary32 a] by simp
next
  assume "fround binary32 s m = Infinity s"
  then show ?thesis by simp
qed

lemma double_to_float_fadd32:
  "double_to_float (fadd binary32 x y) = fadd binary32 x y"
proof (cases x)
  case (Finite s a)
  note X = this
  show ?thesis
  proof (cases y)
    case (Finite t b)
    show ?thesis
    proof (cases "signed s a + signed t b = 0")
      case True
      then show ?thesis using X Finite by (simp add: fround_def)
    next
      case False
      then have "0 \<le> \<bar>signed s a + signed t b\<bar>" by simp
      then show ?thesis using X Finite False by (simp add: double_to_float_fround32 Let_def)
    qed
  qed (use X in simp_all)
next
  case NaN
  then show ?thesis by simp
next
  case (Infinity s)
  then show ?thesis by (cases y) simp_all
qed

lemma double_to_float_fabs: "double_to_float (fabs z) = fabs (double_to_float z)"
proof (cases z)
  case (Finite s m)
  then show ?thesis by (simp add: fround_def)
qed simp_all

lemma abs_diff_eq: "abs_diff a b = fabs (fsub binary32 (half2float a) (half2float b))"
  by (simp add: abs_diff_def float_to_double_def double_to_float_fabs fsub_def double_to_float_fadd32)

lemma sign_clear_fle: "sign_clear x \<Longrightarrow> fle (Finite False 0) x"
  by (cases x) (simp_all add: signed_def)

lemma sign_clear_fround: "0 \<le> m \<Longrightarrow> sign_clear (fround fmt False m)"
  by (rule fround_cases [of m fmt False]) simp_all

lemma sign_clear_fadd:
  assumes "sign_clear x" and "sign_clear y"
  shows "sign_clear (fadd fmt x y)"
proof (cases x)
  case (Finite s a)
  note X = this
  show ?thesis
  proof (cases y)
    case (Finite t b)
    with X assms have "0 \<le> a + b" and "\<not> s" and "\<not> t" by simp_all
    then show ?thesis using X Finite
      by (simp add: signed_def Let_def sign_clear_fround)
  qed (use X assms in simp_all)
next
  case NaN
  with assms show ?thesis by simp
next
  case (Infinity s)
  with assms show ?thesis by (cases y) simp_all
qed

lemma fadd_mag_nonneg: "fadd fmt x y = Finite s m \<Longrightarrow> 0 \<le> m"
proof (cases x)
  case (Finite u a)
  note X = this
  assume r: "fadd fmt x y = Finite s m"
  show ?thesis
  proof (cases y)
    case (Finite t b)
    show ?thesis
    proof (cases "signed u a + signed t b = 0")
      case True
      with r X Finite show ?thesis by simp
    next
      case False
      then have "0 \<le> \<bar>signed u a + signed t b\<bar>" by simp
      then show ?thesis
      proof (rule fround_cases [of _ fmt "signed u a + signed t b < 0"])
        fix v assume "fround fmt (signed u a + signed t b < 0) \<bar>signed u a + signed t b\<bar>
            = Finite (signed u a + signed t b < 0) v" and "0 \<le> v"
        with r X Finite False show ?thesis by (simp add: Let_def)
      next
        assume "fround fmt (signed u a + signed t b < 0) \<bar>signed u a + signed t b\<bar>
            = Infinity (signed u a + signed t b < 0)"
        with r X Finite False show ?thesis by (simp add: Let_def)
      qed
    qed
  qed (use X r in simp_all)
next
  case NaN
  assume "fadd fmt x y = Finite s m"
  with NaN show ?thesis by simp
next
  case (Infinity u)
  assume "fadd fmt x y = Finite s m"
  with Infinity show ?thesis by (cases y) (simp_all split: if_splits)
qed

lemma sign_clear_abs_diff: "abs_diff a b \<noteq> NaN \<Longrightarrow> sign_clear (abs_diff a b)"
proof -
  assume n: "abs_diff a b \<noteq> NaN"
  let ?z = "fsub binary32 (half2float a) (half2float b)"
  have e: "abs_diff a b = fabs ?z" by (rule abs_diff_eq)
  show ?thesis
  proof (cases ?z)
    case NaN
    with n e show ?thesis by simp
  next
    case (Infinity s)
    with e show ?thesis by simp
  next
    case (Finite s m)
    then have "0 \<le> m" unfolding fsub_def by (rule fadd_mag_nonneg)
    with e Finite show ?thesis by simp
  qed
qed

text \<open>The running maximum.\<close>

lemma std_max_cases: "std_max a d = a \<or> std_max a d = d"
  by (simp add: std_max_def)

lemma fle_refl: "x \<noteq> NaN \<Longrightarrow> fle x x"
  by (cases x) simp_all

lemma fle_trans: "fle x y \<Longrightarrow> fle y z \<Longrightarrow> fle x z"
  by (cases x; cases y; cases z) auto

lemma flt_fle: "flt x y \<Longrightarrow> fle x y"
  by (cases x; cases y) auto

lemma not_flt_fle: "x \<noteq> NaN \<Longrightarrow> y \<noteq> NaN \<Longrightarrow> \<not> flt x y \<Longrightarrow> fle y x"
  by (cases x; cases y) auto

lemma flt_not_NaN: "flt x y \<Longrightarrow> y \<noteq> NaN"
  by (cases x; cases y) auto

lemma fle_not_NaN: "fle x y \<Longrightarrow> x \<noteq> NaN \<and> y \<noteq> NaN"
  by (cases x; cases y) auto

lemma foldl_std_max_lower:
  "fle z a \<Longrightarrow> fle z (foldl std_max a ds)"
proof (induction ds arbitrary: a)
  case Nil
  then show ?case by simp
next
  case (Cons d ds)
  have "fle z (std_max a d)"
    using Cons.prems flt_fle [of a d] fle_trans [of z a d] by (auto simp: std_max_def)
  then show ?case using Cons.IH by simp
qed

lemma foldl_std_max_upper:
  assumes "a \<noteq> NaN" and "NaN \<notin> set ds"
  shows "\<forall>d \<in> set ds. fle d (foldl std_max a ds)"
  using assms
proof (induction ds arbitrary: a)
  case Nil
  then show ?case by simp
next
  case (Cons d ds)
  then have d: "d \<noteq> NaN" by auto
  have n: "std_max a d \<noteq> NaN" using Cons.prems(1) d std_max_cases [of a d] by auto
  have "fle d (std_max a d)"
    using Cons.prems(1) d not_flt_fle [of a d] fle_refl [of d] by (auto simp: std_max_def)
  then have "fle d (foldl std_max (std_max a d) ds)" by (rule foldl_std_max_lower)
  moreover have "\<forall>x \<in> set ds. fle x (foldl std_max (std_max a d) ds)"
    using Cons.IH [OF n] Cons.prems(2) by simp
  ultimately show ?case by simp
qed

lemma foldl_std_max_mem: "foldl std_max a ds = a \<or> foldl std_max a ds \<in> set ds"
proof (induction ds arbitrary: a)
  case Nil
  then show ?case by simp
next
  case (Cons d ds)
  from Cons.IH [of "std_max a d"] std_max_cases [of a d] show ?case by auto
qed

lemma sign_clear_le_zero: "sign_clear d \<Longrightarrow> fle d (Finite False 0) \<Longrightarrow> d = Finite False 0"
  by (cases d) (auto simp: signed_def)

lemma running_max_is_maximum:
  assumes "NaN \<notin> set ds" and "ds \<noteq> []" and "\<forall>d \<in> set ds. sign_clear d"
  shows "running_max ds \<in> set ds \<and> (\<forall>d \<in> set ds. fle d (running_max ds))"
proof -
  have up: "\<forall>d \<in> set ds. fle d (running_max ds)"
    unfolding running_max_def by (rule foldl_std_max_upper) (use assms in simp_all)
  have "running_max ds \<in> set ds"
  proof (cases "running_max ds = Finite False 0")
    case True
    from assms(2) obtain d where d: "d \<in> set ds" by (cases ds) auto
    with up True have "fle d (Finite False 0)" by auto
    with assms(3) d have "d = Finite False 0" by (auto intro: sign_clear_le_zero)
    with d True show ?thesis by simp
  next
    case False
    then show ?thesis using foldl_std_max_mem [of "Finite False 0" ds] by (simp add: running_max_def)
  qed
  with up show ?thesis by simp
qed

lemma running_max_nonneg: "fle (Finite False 0) (running_max ds)"
  unfolding running_max_def by (rule foldl_std_max_lower) (simp add: signed_def)

lemma foldl_fadd_sign_clear:
  "sign_clear a \<Longrightarrow> \<forall>d \<in> set ds. sign_clear d \<Longrightarrow> sign_clear (foldl (fadd fmt) a ds)"
  by (induction ds arbitrary: a) (simp_all add: sign_clear_fadd)

lemma running_sum_sign_clear: "\<forall>d \<in> set ds. sign_clear d \<Longrightarrow> sign_clear (running_sum ds)"
  unfolding running_sum_def by (rule foldl_fadd_sign_clear) simp_all

lemma size_to_double_pos:
  assumes "0 < (n :: 64 word)"
  shows "\<exists>v. size_to_double n = Finite False v \<and> 0 < v"
proof -
  define m :: rat where "m = of_nat (unat n)"
  have "0 < unat n" using assms by (simp add: word_less_nat_alt)
  then have "1 \<le> unat n" by simp
  then have "(of_nat 1 :: rat) \<le> of_nat (unat n)" by (simp only: of_nat_le_iff)
  then have m1: "1 \<le> m" by (simp only: m_def of_nat_1)
  then have mpos: "0 < m" by simp
  have "unat n < 2 ^ 64" using unsigned_less [of n] by simp
  then have "(of_nat (unat n) :: rat) < of_nat (2 ^ 64)" by (simp only: of_nat_less_iff)
  then have m64: "m < pow2 64" by (simp add: m_def pow2_def)
  note I = ilog2_bounds [OF mpos]
  have "pow2 0 < pow2 (ilog2 m + 1)" using m1 I(2) by (simp add: pow2_zero)
  then have lo: "0 \<le> ilog2 m" using pow2_less_cancel by fastforce
  have "pow2 (ilog2 m) < pow2 64" using I(1) m64 by simp
  then have hi: "ilog2 m < 64" by (rule pow2_less_cancel)
  define e where "e = max (ilog2 m) (emin binary64)"
  define q where "q = pow2 (e - int (prec binary64) + 1)"
  define k where "k = round_even (m / q)"
  have norm: "emin binary64 \<le> ilog2 m" using lo by (simp add: binary64_def)
  have p1: "1 \<le> prec binary64" by (simp add: binary64_def)
  have e: "e = ilog2 m" using norm by (simp add: e_def)
  have v: "round_mag binary64 m = of_int k * q"
    unfolding k_def q_def e_def by (rule round_mag_parts(2) [OF mpos])
  have qpos: "0 < q"
    unfolding q_def e_def by (rule round_mag_parts(3) [OF mpos])
  have up: "pow2 (e + 1) = 2 ^ prec binary64 * q"
    unfolding q_def e_def by (rule round_mag_parts(4) [OF mpos])
  have kle: "k \<le> 2 ^ prec binary64"
    unfolding k_def q_def e_def by (rule round_mag_parts(6) [OF mpos])
  have low: "pow2 e = 2 ^ (prec binary64 - 1) * q"
    unfolding q_def e_def by (rule round_mag_parts(7) [OF mpos norm p1])
  have kge: "2 ^ (prec binary64 - 1) \<le> k"
    unfolding k_def q_def e_def by (rule round_mag_parts(8) [OF mpos norm p1])
  have "(of_int (2 ^ (prec binary64 - 1)) :: rat) \<le> of_int k" using kge by (simp only: of_int_le_iff)
  then have "pow2 e \<le> of_int k * q" using low qpos by simp
  then have vpos: "0 < round_mag binary64 m" using v pow2_pos [of e] by simp
  have "(of_int k :: rat) \<le> of_int (2 ^ prec binary64)" using kle by (simp only: of_int_le_iff)
  then have "of_int k * q \<le> pow2 (e + 1)" using up qpos by simp
  also have "\<dots> \<le> pow2 64" by (rule pow2_mono) (use e hi in simp)
  also have "\<dots> < pow2 (emax binary64 + 1)" by (rule pow2_strict_mono) (simp add: binary64_def)
  finally have "\<not> pow2 (emax binary64 + 1) \<le> round_mag binary64 m" using v by simp
  then have "size_to_double n = Finite False (round_mag binary64 m)"
    using mpos by (simp add: size_to_double_def fround_def m_def)
  with vpos show ?thesis by blast
qed

lemma mean_of_zero:
  assumes "0 < n"
  shows "mean_of (Finite False 0) n = Finite False 0"
proof -
  from size_to_double_pos [OF assms] obtain v where "size_to_double n = Finite False v" and "0 < v"
    by blast
  then show ?thesis by (simp add: mean_of_def float_to_double_def fround_def)
qed

lemma sign_clear_double_to_float: "sign_clear x \<Longrightarrow> sign_clear (double_to_float x)"
  by (cases x) (simp_all add: sign_clear_fround)

lemma mean_of_sign_clear:
  assumes "0 < n" and "sign_clear s"
  shows "sign_clear (mean_of s n)"
proof -
  from size_to_double_pos [OF assms(1)] obtain v where v: "size_to_double n = Finite False v" and "0 < v"
    by blast
  have "sign_clear (fdiv binary64 s (Finite False v))"
  proof (cases s)
    case (Finite t a)
    with assms(2) \<open>0 < v\<close> have "0 \<le> a / v" and "\<not> t" by simp_all
    then show ?thesis using Finite \<open>0 < v\<close> by (simp add: sign_clear_fround)
  qed (use assms(2) in simp_all)
  then show ?thesis
    by (simp add: mean_of_def float_to_double_def v sign_clear_double_to_float)
qed

lemma running_zero:
  assumes "\<forall>d \<in> set ds. d = Finite False 0"
  shows "running_max ds = Finite False 0" and "running_sum ds = Finite False 0"
proof -
  have "foldl std_max (Finite False 0) ds = Finite False 0" using assms
    by (induction ds) (simp_all add: std_max_def)
  then show "running_max ds = Finite False 0" by (simp add: running_max_def)
  have "foldl (fadd binary32) (Finite False 0) ds = Finite False 0" using assms
    by (induction ds) (simp_all add: signed_def)
  then show "running_sum ds = Finite False 0" by (simp add: running_sum_def)
qed

lemma abs_diff_same:
  assumes "is_finite (half2float a)"
  shows "abs_diff a a = Finite False 0"
proof -
  from assms obtain s m where "half2float a = Finite s m" by (cases "half2float a") simp_all
  then show ?thesis by (simp add: abs_diff_eq fsub_def signed_def)
qed

section \<open>The comparison loop\<close>

lemma world_objs_triv: "objs w p = Some m \<Longrightarrow> w\<lparr>objs := (objs w)(p \<mapsto> m)\<rparr> = w"
  by (simp add: map_upd_triv)

lemma checkValue_loop_result:
  assumes "objs w this = Some m" and "objs w base = Some b"
    and "heap w (m_data m) = Some x" and "heap w (m_data b) = Some y"
    and "unat (m_elem_num m) \<le> length x" and "unat (m_elem_num m) \<le> length y"
    and "i \<le> m_elem_num m"
  shows "checkValue_loop this base i w =
    Returns (w\<lparr>objs := (objs w)(this \<mapsto> m
      \<lparr>m_max_diff := foldl std_max (m_max_diff m) (diffs_from x y (unat i) (unat (m_elem_num m))),
       m_avg_diff := foldl (fadd binary32) (m_avg_diff m)
                       (diffs_from x y (unat i) (unat (m_elem_num m)))\<rparr>)\<rparr>)"
  using assms
proof (induction "unat (m_elem_num m) - unat i" arbitrary: i w m b)
  case 0
  then have "unat i = unat (m_elem_num m)"
    by (simp add: word_le_nat_alt)
  then have eq: "i = m_elem_num m" by (simp add: word_unat_eq_iff)
  then have "\<not> i < m_elem_num m" by simp
  then have "checkValue_loop this base i w = Returns w"
    using 0 by (subst checkValue_loop.simps) simp
  moreover have "m\<lparr>m_max_diff := foldl std_max (m_max_diff m) (diffs_from x y (unat i) (unat (m_elem_num m))),
       m_avg_diff := foldl (fadd binary32) (m_avg_diff m)
                       (diffs_from x y (unat i) (unat (m_elem_num m)))\<rparr> = m"
    using eq by (simp add: diffs_from_def)
  ultimately show ?case using world_objs_triv [OF 0(2)] by (simp only:)
next
  case (Suc k)
  let ?n = "m_elem_num m"
  from Suc have lt: "unat i < unat ?n" by simp
  then have ilt: "i < ?n" by (simp add: word_less_nat_alt)
  have "unat ?n < 2 ^ LENGTH(64)" by (rule unsigned_less)
  with lt have "unat i + unat (1 :: 64 word) < 2 ^ LENGTH(64)" by simp
  then have "unat (i + 1) = unat i + unat (1 :: 64 word)" by (simp only: unat_add_lem)
  then have suc: "unat (i + 1) = Suc (unat i)" by simp
  let ?d = "abs_diff (x ! unat i) (y ! unat i)"
  let ?m2 = "m\<lparr>m_max_diff := std_max (m_max_diff m) ?d,
               m_avg_diff := fadd binary32 (m_avg_diff m) ?d\<rparr>"
  let ?w2 = "w\<lparr>objs := (objs w)(this \<mapsto> ?m2)\<rparr>"
  let ?b2 = "if base = this then ?m2 else b"
  have inx: "unat i < length x" and iny: "unat i < length y"
    using lt Suc.prems by simp_all
  have step: "checkValue_loop this base i w = checkValue_loop this base (i + 1) ?w2"
    using Suc.prems ilt inx iny
    by (subst checkValue_loop.simps) (simp add: update_this_def getData_def Let_def)
  have data_b: "m_data ?b2 = m_data b"
    using Suc.prems by auto
  have "checkValue_loop this base (i + 1) ?w2 =
    Returns (?w2\<lparr>objs := (objs ?w2)(this \<mapsto> ?m2
      \<lparr>m_max_diff := foldl std_max (m_max_diff ?m2) (diffs_from x y (unat (i + 1)) (unat (m_elem_num ?m2))),
       m_avg_diff := foldl (fadd binary32) (m_avg_diff ?m2)
                       (diffs_from x y (unat (i + 1)) (unat (m_elem_num ?m2)))\<rparr>)\<rparr>)"
  proof (rule Suc.hyps(1) [where b = ?b2])
    show "k = unat (m_elem_num ?m2) - unat (i + 1)" using Suc.hyps(2) suc by simp
    show "objs ?w2 this = Some ?m2" by simp
    show "objs ?w2 base = Some ?b2" using Suc.prems by simp
    show "heap ?w2 (m_data ?m2) = Some x" using Suc.prems by simp
    show "heap ?w2 (m_data ?b2) = Some y" using Suc.prems data_b by simp
    show "unat (m_elem_num ?m2) \<le> length x" using Suc.prems by simp
    show "unat (m_elem_num ?m2) \<le> length y" using Suc.prems by simp
    show "i + 1 \<le> m_elem_num ?m2" using ilt inc_le by simp
  qed
  moreover have "diffs_from x y (unat i) (unat ?n) = ?d # diffs_from x y (Suc (unat i)) (unat ?n)"
    using lt by (simp add: diffs_from_def upt_conv_Cons)
  ultimately show ?case using step suc by simp
qed

lemma checkValue_result:
  assumes m: "objs w this = Some m" and b: "objs w base = Some b" and nz: "base \<noteq> 0"
    and x: "heap w (m_data m) = Some x" and y: "heap w (m_data b) = Some y"
    and lx: "unat (m_elem_num m) \<le> length x" and ly: "unat (m_elem_num m) \<le> length y"
    and row: "m_row m = m_row b" and col: "m_col m = m_col b"
  shows "checkValue this base w =
    Returns (w\<lparr>objs := (objs w)(this \<mapsto> m
      \<lparr>m_max_diff := running_max (diffs_from x y 0 (unat (m_elem_num m))),
       m_avg_diff := mean_of (running_sum (diffs_from x y 0 (unat (m_elem_num m))))
                       (m_elem_num m)\<rparr>)\<rparr>)"
proof -
  let ?m5 = "m\<lparr>m_max_diff := Finite False 0, m_avg_diff := Finite False 0\<rparr>"
  let ?w5 = "w\<lparr>objs := (objs w)(this \<mapsto> ?m5)\<rparr>"
  let ?b5 = "if base = this then ?m5 else b"
  let ?ds = "diffs_from x y 0 (unat (m_elem_num m))"
  let ?m6 = "?m5\<lparr>m_max_diff := foldl std_max (m_max_diff ?m5) (diffs_from x y (unat (0 :: 64 word)) (unat (m_elem_num ?m5))),
       m_avg_diff := foldl (fadd binary32) (m_avg_diff ?m5)
                       (diffs_from x y (unat (0 :: 64 word)) (unat (m_elem_num ?m5)))\<rparr>"
  have data_b: "m_data ?b5 = m_data b" using m b by auto
  have loop: "checkValue_loop this base 0 ?w5 = Returns (?w5\<lparr>objs := (objs ?w5)(this \<mapsto> ?m6)\<rparr>)"
  proof (rule checkValue_loop_result [where b = ?b5])
    show "objs ?w5 this = Some ?m5" by simp
    show "objs ?w5 base = Some ?b5" using b by simp
    show "heap ?w5 (m_data ?m5) = Some x" using x by simp
    show "heap ?w5 (m_data ?b5) = Some y" using y data_b by simp
    show "unat (m_elem_num ?m5) \<le> length x" using lx by simp
    show "unat (m_elem_num ?m5) \<le> length y" using ly by simp
    show "0 \<le> m_elem_num ?m5" by simp
  qed
  have pre: "checkValue this base w =
     and_then (checkValue_loop this base 0 ?w5) (\<lambda>w6.
              Returns (update_this this
                (\<lambda>m. m\<lparr>m_avg_diff :=
                   double_to_float (fdiv binary64 (float_to_double (m_avg_diff m))
                     (size_to_double (m_elem_num m)))\<rparr>) w6))"
    using m b nz row col
    by (simp add: checkValue_def HGEMM_CHECK_def HGEMM_CHECK_EQ_def getRow_def getCol_def
        update_this_def Let_def)
  show ?thesis
    unfolding pre loop
    by (simp add: update_this_def running_max_def running_sum_def mean_of_def)
qed

section \<open>The constructor\<close>

lemma unat_product:
  assumes "0 < (row :: 64 word)" and "0 < col" and "unat row * unat col * 2 < 2 ^ 64"
  shows "unat (row * col) = unat row * unat col" and "0 < row * col"
    and "unat (row * col) * 2 < 2 ^ 64"
proof -
  have "unat row * unat col \<le> unat row * unat col * 2" by simp
  also note assms(3)
  finally have "unat row * unat col < 2 ^ LENGTH(64)" by simp
  then show n: "unat (row * col) = unat row * unat col" by (simp only: unat_mult_lem)
  have "0 < unat row" and "0 < unat col" using assms(1,2) by (simp_all add: word_less_nat_alt)
  then have "0 < unat (row * col)" using n by simp
  then show "0 < row * col" by (simp add: word_less_nat_alt)
  show "unat (row * col) * 2 < 2 ^ 64" using assms(3) n by simp
qed

lemma Matrix_ctor_result:
  assumes row: "0 < row" and col: "0 < col" and npos: "0 < row * col"
    and nfits: "unat (row * col) * 2 < 2 ^ 64"
    and hg: "host_grant ev = Some (hp, hj)" and hp: "hp \<noteq> 0"
    and dg: "dev_grant ev = Some (dp, dj)" and dp: "dp \<noteq> 0"
  shows "Matrix_ctor ev this row col name mn mx w =
      Returns (w\<lparr>heap := (heap w)(hp \<mapsto> drawn ev mn mx (unat (row * col))),
                 gmem := (gmem w)(dp \<mapsto> drawn ev mn mx (unat (row * col))),
                 objs := (objs w)(this \<mapsto> constructed_matrix row col name mn mx hp dp)\<rparr>)"
proof -
  let ?n = "row * col"
  from nfits have nofl: "\<not> (2 :: nat) ^ 64 \<le> unat ?n * 2" by simp
  have bytes: "unat (?n * sizeof_half) div 2 = unat ?n" using nfits by (rule unat_bytes)
  let ?M = "constructed_matrix row col name mn mx hp dp"
  let ?w11 = "w\<lparr>heap := (heap w)(hp \<mapsto> map hj [0..<unat ?n]),
                 gmem := (gmem w)(dp \<mapsto> map dj [0..<unat ?n]),
                 objs := (objs w)(this \<mapsto> ?M)\<rparr>"
  let ?H = "drawn ev mn mx (unat ?n)"
  have fill: "fill_loop (uniform ev mn mx) this 0 ?w11 =
      Returns (?w11\<lparr>heap := (heap ?w11)(hp \<mapsto> ?H)\<rparr>)"
    using fill_loop_result [of ?w11 this ?M "map hj [0..<unat ?n]" 0 "uniform ev mn mx"]
    by (simp add: constructed_matrix_def drawn_def)
  have pre: "Matrix_ctor ev this row col name mn mx w =
      and_then (fill_loop (uniform ev mn mx) this 0 ?w11) (\<lambda>w12.
        HGEMM_CHECK_CUDART_ERROR
          (cudaMemcpy dp hp (?n * sizeof_half) cudaMemcpyHostToDevice w12))"
    using row col npos nofl hg hp dg dp
    by (simp add: Matrix_ctor_def Let_def HGEMM_CHECK_GT_def HGEMM_CHECK_def update_this_def
        new_half_array_def cudaMalloc_def bytes HGEMM_CHECK_CUDART_ERROR_def
        constructed_matrix_def)
  show ?thesis
    unfolding pre fill
    by (simp add: cudaMemcpy_def bytes copy_halfs_all drawn_def Let_def
        HGEMM_CHECK_CUDART_ERROR_def)
qed

lemma Matrix_ctor_zero_dimension:
  assumes "row = 0 \<or> col = 0"
  shows "\<exists>what w'. Matrix_ctor ev this row col name mn mx w = Aborts (CheckFailed what) w'"
proof (cases "row = 0")
  case True
  then show ?thesis
    by (simp add: Matrix_ctor_def Let_def HGEMM_CHECK_GT_def HGEMM_CHECK_def)
next
  case False
  with assms have "col = 0" by simp
  moreover from False have "0 < row" by (simp add: word_neq_0_conv)
  ultimately show ?thesis
    by (simp add: Matrix_ctor_def Let_def HGEMM_CHECK_GT_def HGEMM_CHECK_def)
qed

section \<open>\<^verbatim>\<open>tearUp\<close> and the fatal checks\<close>

lemma tearUp_constructed:
  assumes "constructed w this" and "constructed w base" and "same_shape w this base"
  obtains m b y where "objs w this = Some m" and "objs w base = Some b"
    and "heap w (m_data b) = Some y"
    and "tearUp this base w = Returns (w\<lparr>gmem := (gmem w)(m_gpu_data m \<mapsto> y)\<rparr>)"
proof -
  from assms(1) obtain m d where m: "objs w this = Some m" and d: "gmem w (m_gpu_data m) = Some d"
    and ld: "length d = unat (m_elem_num m)" and fits: "unat (m_elem_num m) * 2 < 2 ^ 64"
    and n: "m_elem_num m = m_row m * m_col m"
    by (rule constructedD)
  from assms(2) obtain b y where b: "objs w base = Some b" and y: "heap w (m_data b) = Some y"
    and ly: "length y = unat (m_elem_num b)" and nb: "m_elem_num b = m_row b * m_col b"
    and nz: "base \<noteq> 0"
    by (rule constructedD)
  from assms(3) m b have row: "m_row m = m_row b" and col: "m_col m = m_col b"
    by (simp_all add: same_shape_def getRow_def getCol_def)
  with n nb ly have ly': "length y = unat (m_elem_num m)" by simp
  have "tearUp this base w = Returns (w\<lparr>gmem := (gmem w)(m_gpu_data m \<mapsto> y)\<rparr>)"
    by (rule tearUp_result [OF m d ld fits nz b y ly' row col])
  then show ?thesis using that m b y by blast
qed

lemma check_aborts:
  assumes "objs w this = Some m"
  shows "base = 0 \<Longrightarrow> tearUp this base w = Aborts (CheckFailed ''base'') w"
    and "base = 0 \<Longrightarrow> checkValue this base w = Aborts (CheckFailed ''base'') w"
    and "base \<noteq> 0 \<Longrightarrow> objs w base = Some b \<Longrightarrow> m_row m \<noteq> m_row b \<Longrightarrow>
      tearUp this base w = Aborts (CheckFailed ''m_row == base->getRow()'') w"
    and "base \<noteq> 0 \<Longrightarrow> objs w base = Some b \<Longrightarrow> m_row m \<noteq> m_row b \<Longrightarrow>
      checkValue this base w = Aborts (CheckFailed ''m_row == base->getRow()'') w"
    and "base \<noteq> 0 \<Longrightarrow> objs w base = Some b \<Longrightarrow> m_row m = m_row b \<Longrightarrow> m_col m \<noteq> m_col b \<Longrightarrow>
      tearUp this base w = Aborts (CheckFailed ''m_col == base->getCol()'') w"
    and "base \<noteq> 0 \<Longrightarrow> objs w base = Some b \<Longrightarrow> m_row m = m_row b \<Longrightarrow> m_col m \<noteq> m_col b \<Longrightarrow>
      checkValue this base w = Aborts (CheckFailed ''m_col == base->getCol()'') w"
  using assms
  by (simp_all add: tearUp_def checkValue_def HGEMM_CHECK_def HGEMM_CHECK_EQ_def getRow_def
      getCol_def)

section \<open>The statistics of a comparison\<close>

lemma diffs_from_abs_diffs:
  "length x = n \<Longrightarrow> length y = n \<Longrightarrow> diffs_from x y 0 n = abs_diffs x y"
  by (auto simp: diffs_from_def abs_diffs_def abs_diff_eq list_eq_iff_nth_eq)

lemma abs_diffs_sign_clear:
  assumes "NaN \<notin> set (abs_diffs x y)"
  shows "\<forall>d \<in> set (abs_diffs x y). sign_clear d"
proof
  fix d assume d: "d \<in> set (abs_diffs x y)"
  then obtain a b where "d = fabs (fsub binary32 (half2float a) (half2float b))"
    by (auto simp: abs_diffs_def set_zip)
  then have e: "d = abs_diff a b" by (simp add: abs_diff_eq)
  from d assms have "d \<noteq> NaN" by auto
  with e show "sign_clear d" by (simp add: sign_clear_abs_diff)
qed

lemma abs_diffs_same:
  assumes "\<forall>a \<in> set x. is_finite (half2float a)"
  shows "\<forall>d \<in> set (abs_diffs x x). d = Finite False 0"
proof
  fix d assume "d \<in> set (abs_diffs x x)"
  then obtain i where i: "i < length x"
    and "d = fabs (fsub binary32 (half2float (x ! i)) (half2float (x ! i)))"
    by (auto simp: abs_diffs_def set_zip)
  moreover from i have "x ! i \<in> set x" by (rule nth_mem)
  ultimately obtain a where "a \<in> set x"
    and "d = fabs (fsub binary32 (half2float a) (half2float a))"
    by blast
  with assms show "d = Finite False 0"
    using abs_diff_same [of a] by (simp add: abs_diff_eq)
qed

text \<open>What a comparison of two constructed matrices of one shape returns.\<close>

lemma checkValue_constructed:
  assumes "constructed w this" and "constructed w base" and "same_shape w this base"
  obtains m x y where "objs w this = Some m" and "host_of w this = Some x"
    and "host_of w base = Some y" and "length x = unat (m_elem_num m)"
    and "length y = unat (m_elem_num m)" and "0 < m_elem_num m"
    and "checkValue this base w =
      Returns (with_stats this (running_max (abs_diffs x y))
                 (mean_of (running_sum (abs_diffs x y)) (m_elem_num m)) w)"
proof -
  from assms(1) obtain m x where m: "objs w this = Some m" and x: "heap w (m_data m) = Some x"
    and lx: "length x = unat (m_elem_num m)" and n: "m_elem_num m = m_row m * m_col m"
    and pos: "0 < m_elem_num m"
    by (rule constructedD)
  from assms(2) obtain b y where b: "objs w base = Some b" and y: "heap w (m_data b) = Some y"
    and ly: "length y = unat (m_elem_num b)" and nb: "m_elem_num b = m_row b * m_col b"
    and nz: "base \<noteq> 0"
    by (rule constructedD)
  from assms(3) m b have row: "m_row m = m_row b" and col: "m_col m = m_col b"
    by (simp_all add: same_shape_def getRow_def getCol_def)
  with n nb have nn: "m_elem_num b = m_elem_num m" by simp
  have "checkValue this base w =
    Returns (w\<lparr>objs := (objs w)(this \<mapsto> m
      \<lparr>m_max_diff := running_max (diffs_from x y 0 (unat (m_elem_num m))),
       m_avg_diff := mean_of (running_sum (diffs_from x y 0 (unat (m_elem_num m))))
                       (m_elem_num m)\<rparr>)\<rparr>)"
    by (rule checkValue_result [OF m b nz x y _ _ row col]) (use lx ly nn in simp_all)
  moreover have "diffs_from x y 0 (unat (m_elem_num m)) = abs_diffs x y"
    by (rule diffs_from_abs_diffs) (use lx ly nn in simp_all)
  ultimately have "checkValue this base w =
      Returns (with_stats this (running_max (abs_diffs x y))
                 (mean_of (running_sum (abs_diffs x y)) (m_elem_num m)) w)"
    using m by (simp add: with_stats_def update_this_def)
  then show ?thesis
    using that [of m x y] m x y b lx ly nn pos by (simp add: host_of_def)
qed

lemma constructed_with_stats: "constructed (with_stats p mx av w) q = constructed w q"
  by (auto simp: constructed_def with_stats_def update_this_def split: option.splits)

lemma stats_of_with_stats:
  "objs w this = Some m \<Longrightarrow> stats_of (with_stats this mx av w) this = Some (mx, av)"
  by (simp add: stats_of_def with_stats_def update_this_def)

lemma checkValue_stats_eq:
  assumes "constructed w this" and "constructed w base" and "same_shape w this base"
    and "objs w this = Some m" and "host_of w this = Some x" and "host_of w base = Some y"
  shows "checkValue this base w =
      Returns (with_stats this (running_max (abs_diffs x y))
                 (mean_of (running_sum (abs_diffs x y)) (m_elem_num m)) w)"
proof -
  from assms(1-3) obtain m' x' y' where "objs w this = Some m'" and "host_of w this = Some x'"
    and "host_of w base = Some y'"
    and "checkValue this base w =
      Returns (with_stats this (running_max (abs_diffs x' y'))
                 (mean_of (running_sum (abs_diffs x' y')) (m_elem_num m')) w)"
    by (rule checkValue_constructed)
  with assms(4-6) show ?thesis by simp
qed

section \<open>The class invariant\<close>

text \<open>A constructor call that returns leaves a constructed object with both buffers in
  sync, whatever the environment did.\<close>

lemma Matrix_ctor_returns_constructed:
  assumes ret: "Matrix_ctor ev this row col name mn mx w = Returns w'" and nonnull: "this \<noteq> 0"
  shows "constructed w' this \<and> host_of w' this = device_of w' this"
proof -
  have row: "0 < row"
  proof (rule ccontr)
    assume "\<not> 0 < row"
    then have "row = 0" using word_neq_0_conv [of row] by blast
    then have "row = 0 \<or> col = 0" by simp
    from Matrix_ctor_zero_dimension [OF this, of ev this name mn mx w] ret show False by auto
  qed
  have col: "0 < col"
  proof (rule ccontr)
    assume "\<not> 0 < col"
    then have "col = 0" using word_neq_0_conv [of col] by blast
    then have "row = 0 \<or> col = 0" by simp
    from Matrix_ctor_zero_dimension [OF this, of ev this name mn mx w] ret show False by auto
  qed
  have npos: "0 < row * col"
    using ret row col
    by (cases "0 < row * col")
      (simp_all add: Matrix_ctor_def Let_def HGEMM_CHECK_GT_def HGEMM_CHECK_def)
  have nfits: "unat (row * col) * 2 < 2 ^ 64"
    using ret row col npos
    by (cases "unat (row * col) * 2 < 2 ^ 64")
      (simp_all add: Matrix_ctor_def Let_def HGEMM_CHECK_GT_def HGEMM_CHECK_def
        new_half_array_def)
  obtain hp hj where hg: "host_grant ev = Some (hp, hj)"
    using ret row col npos nfits
    by (cases "host_grant ev")
      (auto simp: Matrix_ctor_def Let_def HGEMM_CHECK_GT_def HGEMM_CHECK_def
        new_half_array_def)
  have hp: "hp \<noteq> 0"
    using ret row col npos nfits hg
    by (cases "hp = 0")
      (simp_all add: Matrix_ctor_def Let_def HGEMM_CHECK_GT_def HGEMM_CHECK_def
        new_half_array_def update_this_def)
  obtain dp dj where dg: "dev_grant ev = Some (dp, dj)"
    using ret row col npos nfits hg hp
    by (cases "dev_grant ev")
      (auto simp: Matrix_ctor_def Let_def HGEMM_CHECK_GT_def HGEMM_CHECK_def
        new_half_array_def update_this_def cudaMalloc_def HGEMM_CHECK_CUDART_ERROR_def)
  have dp: "dp \<noteq> 0"
    using ret row col npos nfits hg hp dg
    by (cases "dp = 0")
      (simp_all add: Matrix_ctor_def Let_def HGEMM_CHECK_GT_def HGEMM_CHECK_def
        new_half_array_def update_this_def cudaMalloc_def HGEMM_CHECK_CUDART_ERROR_def)
  from Matrix_ctor_result [OF row col npos nfits hg hp dg dp, of this name mn mx w] ret
  have "w' = w\<lparr>heap := (heap w)(hp \<mapsto> drawn ev mn mx (unat (row * col))),
                 gmem := (gmem w)(dp \<mapsto> drawn ev mn mx (unat (row * col))),
                 objs := (objs w)(this \<mapsto> constructed_matrix row col name mn mx hp dp)\<rparr>"
    by simp
  then show ?thesis
    using row col npos nfits hp dp nonnull
    by (simp add: constructed_def constructed_matrix_def drawn_def host_of_def device_of_def)
qed

text \<open>Every method keeps the object it is called on constructed.\<close>

lemma constructed_heap_update:
  assumes "constructed w this" and "objs w this = Some m" and "length h = unat (m_elem_num m)"
  shows "constructed (w\<lparr>heap := (heap w)(m_data m \<mapsto> h)\<rparr>) this"
  using assms by (auto simp: constructed_def split: option.splits)

lemma constructed_gmem_update:
  assumes "constructed w this" and "objs w this = Some m" and "length d = unat (m_elem_num m)"
  shows "constructed (w\<lparr>gmem := (gmem w)(m_gpu_data m \<mapsto> d)\<rparr>) this"
  using assms by (auto simp: constructed_def split: option.splits)

lemma moveToHost_keeps_constructed:
  assumes "constructed w this" and "moveToHost this w = Returns w'"
  shows "constructed w' this"
proof -
  from assms(1) obtain m h d where m: "objs w this = Some m" and h: "heap w (m_data m) = Some h"
    and d: "gmem w (m_gpu_data m) = Some d" and lh: "length h = unat (m_elem_num m)"
    and ld: "length d = unat (m_elem_num m)" and fits: "unat (m_elem_num m) * 2 < 2 ^ 64"
    by (rule constructedD)
  from moveToHost_result [OF m h d lh ld fits] assms(2)
  have "w' = w\<lparr>heap := (heap w)(m_data m \<mapsto> d)\<rparr>" by simp
  then show ?thesis using constructed_heap_update [OF assms(1) m ld] by simp
qed

lemma zeros_keeps_constructed:
  assumes "constructed w this" and "zeros this w = Returns w'"
  shows "constructed w' this"
proof -
  from assms(1) obtain m h d where m: "objs w this = Some m" and h: "heap w (m_data m) = Some h"
    and d: "gmem w (m_gpu_data m) = Some d" and lh: "length h = unat (m_elem_num m)"
    and ld: "length d = unat (m_elem_num m)" and fits: "unat (m_elem_num m) * 2 < 2 ^ 64"
    by (rule constructedD)
  let ?z = "replicate (unat (m_elem_num m)) (0 :: half)"
  let ?w1 = "w\<lparr>gmem := (gmem w)(m_gpu_data m \<mapsto> ?z)\<rparr>"
  from zeros_result [OF m h d lh ld fits] assms(2)
  have w': "w' = ?w1\<lparr>heap := (heap ?w1)(m_data m \<mapsto> ?z)\<rparr>" by simp
  have "constructed ?w1 this" by (rule constructed_gmem_update [OF assms(1) m]) simp
  then have "constructed (?w1\<lparr>heap := (heap ?w1)(m_data m \<mapsto> ?z)\<rparr>) this"
    by (rule constructed_heap_update) (use m in simp_all)
  then show ?thesis using w' by simp
qed

lemma random_matrix_keeps_constructed:
  assumes "constructed w this" and "random_matrix unif this mn mx w = Returns w'"
  shows "constructed w' this"
proof -
  from assms(1) obtain m h d where m: "objs w this = Some m" and h: "heap w (m_data m) = Some h"
    and d: "gmem w (m_gpu_data m) = Some d" and lh: "length h = unat (m_elem_num m)"
    and ld: "length d = unat (m_elem_num m)" and fits: "unat (m_elem_num m) * 2 < 2 ^ 64"
    by (rule constructedD)
  from random_matrix_result [OF m h d lh ld fits] assms(2)
  have "w' = w\<lparr>heap := (heap w)(m_data m \<mapsto> d)\<rparr>" by simp
  then show ?thesis using constructed_heap_update [OF assms(1) m ld] by simp
qed

lemma tearUp_keeps_constructed:
  assumes "constructed w this" and "constructed w base" and "tearUp this base w = Returns w'"
  shows "constructed w' this"
proof -
  from assms(1) obtain m where m: "objs w this = Some m" by (rule constructedD)
  from assms(2) obtain b where b: "objs w base = Some b" and nz: "base \<noteq> 0"
    by (rule constructedD)
  have s: "same_shape w this base"
  proof (rule ccontr)
    assume "\<not> same_shape w this base"
    then have "m_row m \<noteq> m_row b \<or> m_col m \<noteq> m_col b"
      using m b by (simp add: same_shape_def getRow_def getCol_def)
    then show False
      using check_aborts(3,5) [OF m nz b] assms(3) by (cases "m_row m = m_row b") auto
  qed
  from tearUp_constructed [OF assms(1,2) s] obtain m' b' y where m': "objs w this = Some m'"
    and b': "objs w base = Some b'" and y: "heap w (m_data b') = Some y"
    and res: "tearUp this base w = Returns (w\<lparr>gmem := (gmem w)(m_gpu_data m' \<mapsto> y)\<rparr>)"
    by blast
  from assms(2) b' y have "length y = unat (m_elem_num b')"
    by (auto simp: constructed_def)
  moreover from assms(1,2) s m' b' have "m_elem_num b' = m_elem_num m'"
    by (auto simp: constructed_def same_shape_def getRow_def getCol_def)
  ultimately have "constructed (w\<lparr>gmem := (gmem w)(m_gpu_data m' \<mapsto> y)\<rparr>) this"
    using constructed_gmem_update [OF assms(1) m'] by simp
  with res assms(3) show ?thesis by simp
qed

lemma checkValue_keeps_constructed:
  assumes "constructed w this" and "constructed w base" and "checkValue this base w = Returns w'"
  shows "constructed w' this \<and> constructed w' base"
proof -
  from assms(1) obtain m where m: "objs w this = Some m" by (rule constructedD)
  from assms(2) obtain b where b: "objs w base = Some b" and nz: "base \<noteq> 0"
    by (rule constructedD)
  have s: "same_shape w this base"
  proof (rule ccontr)
    assume "\<not> same_shape w this base"
    then have "m_row m \<noteq> m_row b \<or> m_col m \<noteq> m_col b"
      using m b by (simp add: same_shape_def getRow_def getCol_def)
    then show False
      using check_aborts(4,6) [OF m nz b] assms(3) by (cases "m_row m = m_row b") auto
  qed
  from checkValue_constructed [OF assms(1,2) s] obtain mx av
    where "checkValue this base w = Returns (with_stats this mx av w)"
    by metis
  with assms(3) have "w' = with_stats this mx av w" by simp
  with assms(1,2) show ?thesis by (simp add: constructed_with_stats)
qed

section \<open>Evaluations on the sample states\<close>

lemma half2float_7C00: "half2float 0x7C00 = Infinity False"
  by (simp add: half2float_def)

lemma half2float_3E00: "half2float 0x3E00 = Finite False (3 / 2)"
  by (simp add: half2float_def pow2_def)

lemma half2float_8004: "half2float 0x8004 = Finite True (1 / 4194304)"
  by (simp add: half2float_def pow2_def)

lemma half2float_3C00: "half2float 0x3C00 = Finite False 1"
  by (simp add: half2float_def pow2_def)

lemma half2float_4000: "half2float 0x4000 = Finite False 2"
  by (simp add: half2float_def pow2_def)

lemma half_mag_one: "half_mag 1 = 0x3C00"
  by code_simp

lemma half_mag_three_halves: "half_mag (3 / 2) = 0x3E00"
  by code_simp

lemma half_mag_75000: "half_mag 75000 = 0x7C00"
  by code_simp

lemma drawn_sample: "drawn (sample_env (3 / 2)) mn mx 2 = [0x3E00, 0x3E00]"
proof -
  have "[0..<2] = [0, Suc 0]" by (simp add: upt_rec)
  then show ?thesis
    by (simp add: drawn_def sample_env_def half_sign_def half_mag_three_halves)
qed

lemma constructed_sample_30: "constructed sample_world 0x30"
  by (simp add: constructed_def sample_world_def sample_matrix_def)

lemma same_shape_sample: "same_shape sample_world 0x10 0x20" "same_shape sample_world 0x20 0x20"
  by (simp_all add: same_shape_def sample_world_def sample_matrix_def getRow_def getCol_def)

lemma host_sample: "host_of sample_world 0x10 = Some [0x3C00, 0x4000]"
  "host_of sample_world 0x20 = Some [0x3E00, 0x3E00]"
  by (simp_all add: host_of_def sample_world_def sample_matrix_def)

lemma elem_count_sample: "elem_count sample_world 0x10 = 2" "elem_count sample_world 0x20 = 2"
  by (simp_all add: elem_count_def sample_world_def sample_matrix_def getElemNum_def)

lemma diff_sample: "fabs (fsub binary32 (Finite False 1) (Finite False (3 / 2))) = Finite False (1 / 2)"
  "fabs (fsub binary32 (Finite False 2) (Finite False (3 / 2))) = Finite False (1 / 2)"
  by code_simp+

lemma abs_diffs_sample:
  "abs_diffs [0x3C00, 0x4000] [0x3E00, 0x3E00] = [Finite False (1 / 2), Finite False (1 / 2)]"
  by (simp add: abs_diffs_def half2float_3C00 half2float_4000 half2float_3E00 diff_sample)

lemma stats_sample:
  "running_max [Finite False (1 / 2), Finite False (1 / 2)] = Finite False (1 / 2)"
  "mean_of (running_sum [Finite False (1 / 2), Finite False (1 / 2)]) 2 = Finite False (1 / 2)"
  by code_simp+

lemma constructed_overflow: "constructed overflow_world 0x10" "constructed overflow_world 0x20"
  by (simp_all add: constructed_def overflow_world_def sample_matrix_def)

lemma same_shape_overflow: "same_shape overflow_world 0x10 0x20"
  by (simp add: same_shape_def overflow_world_def sample_matrix_def getRow_def getCol_def)

lemma host_overflow: "host_of overflow_world 0x10 = Some [0x7C00]"
  "host_of overflow_world 0x20 = Some [0x7C00]"
  by (simp_all add: host_of_def overflow_world_def sample_matrix_def)

lemma abs_diffs_overflow: "abs_diffs [0x7C00] [0x7C00] = [NaN]"
  by (simp add: abs_diffs_def half2float_7C00 fsub_def)

lemma checkValue_overflow:
  "checkValue 0x10 0x20 overflow_world = Returns (with_stats 0x10 (Finite False 0) NaN overflow_world)"
proof -
  have m: "objs overflow_world 0x10 = Some (sample_matrix 1 1 0x1000 0x2000)"
    by (simp add: overflow_world_def)
  have "running_max [NaN] = Finite False 0"
    by (simp add: running_max_def std_max_def)
  moreover have "mean_of (running_sum [NaN]) n = NaN" for n
    by (simp add: running_sum_def mean_of_def float_to_double_def)
  ultimately show ?thesis
    using checkValue_stats_eq [OF constructed_overflow same_shape_overflow m host_overflow]
    by (simp add: abs_diffs_overflow)
qed

lemma diff_rounding: "fabs (fsub binary32 (Finite False (3 / 2)) (Finite True (1 / 4194304)))
    = Finite False (6291457 / 4194304)"
  by code_simp

lemma sum_rounding: "running_sum [Finite False (6291457 / 4194304), Finite False (6291457 / 4194304),
     Finite False (6291457 / 4194304)] = Finite False (4718593 / 1048576)"
  by code_simp

lemma max_rounding: "running_max [Finite False (6291457 / 4194304), Finite False (6291457 / 4194304),
     Finite False (6291457 / 4194304)] = Finite False (6291457 / 4194304)"
  by code_simp

lemma size_to_double_3: "size_to_double 3 = Finite False 3"
  by code_simp

lemma mean_rounding: "mean_of (Finite False (4718593 / 1048576)) 3 = Finite False (12582915 / 8388608)"
  unfolding mean_of_def size_to_double_3 float_to_double_def by code_simp

lemma constructed_rounding: "constructed rounding_world 0x10" "constructed rounding_world 0x20"
  by (simp_all add: constructed_def rounding_world_def sample_matrix_def)

lemma same_shape_rounding: "same_shape rounding_world 0x10 0x20"
  by (simp add: same_shape_def rounding_world_def sample_matrix_def getRow_def getCol_def)

lemma host_rounding: "host_of rounding_world 0x10 = Some [0x3E00, 0x3E00, 0x3E00]"
  "host_of rounding_world 0x20 = Some [0x8004, 0x8004, 0x8004]"
  by (simp_all add: host_of_def rounding_world_def sample_matrix_def)

lemma abs_diffs_rounding: "abs_diffs [0x3E00, 0x3E00, 0x3E00] [0x8004, 0x8004, 0x8004] =
    [Finite False (6291457 / 4194304), Finite False (6291457 / 4194304),
     Finite False (6291457 / 4194304)]"
  by (simp add: abs_diffs_def half2float_3E00 half2float_8004 diff_rounding)

lemma checkValue_rounding:
  "checkValue 0x10 0x20 rounding_world =
     Returns (with_stats 0x10 (Finite False (6291457 / 4194304))
                (Finite False (12582915 / 8388608)) rounding_world)"
proof -
  have m: "objs rounding_world 0x10 = Some (sample_matrix 1 3 0x1000 0x2000)"
    by (simp add: rounding_world_def)
  have n: "m_elem_num (sample_matrix 1 3 0x1000 0x2000) = 3"
    by (simp add: sample_matrix_def)
  show ?thesis
    using checkValue_stats_eq [OF constructed_rounding same_shape_rounding m host_rounding]
    by (simp only: abs_diffs_rounding max_rounding sum_rounding n mean_rounding)
qed

section \<open>Claims about the transfer methods\<close>

text \<open>
  Claim C4. On every constructed matrix \<^verbatim>\<open>zeros()\<close> returns, and afterwards the device buffer
  and the host buffer both consist of \<open>elem_count\<close> halves of pattern \<^verbatim>\<open>0x0000\<close>, which is the
  half-precision value \<open>+0.0\<close>: the two buffers are all-zero and in sync.
\<close>

theorem zeros_all_zero:
  assumes "constructed w this"
  shows "\<exists>w'. zeros this w = Returns w' \<and>
           device_of w' this = Some (replicate (unat (elem_count w this)) 0) \<and>
           host_of w' this = Some (replicate (unat (elem_count w this)) 0) \<and>
           half2float 0 = Finite False 0"
proof -
  from assms obtain m h d where m: "objs w this = Some m" and h: "heap w (m_data m) = Some h"
    and d: "gmem w (m_gpu_data m) = Some d" and lh: "length h = unat (m_elem_num m)"
    and ld: "length d = unat (m_elem_num m)" and fits: "unat (m_elem_num m) * 2 < 2 ^ 64"
    by (rule constructedD)
  show ?thesis
    using zeros_result [OF m h d lh ld fits] m
    by (simp add: device_of_def host_of_def elem_count_def getElemNum_def half2float_zero)
qed

theorem zeros_all_zero_witness:
  "constructed sample_world 0x10 \<and>
   (\<exists>w'. zeros 0x10 sample_world = Returns w' \<and>
      device_of w' 0x10 = Some [0, 0] \<and> host_of w' 0x10 = Some [0, 0])"
proof -
  have "elem_count sample_world 0x10 = 2"
    by (simp add: elem_count_def sample_world_def sample_matrix_def getElemNum_def)
  then have "unat (elem_count sample_world 0x10) = Suc (Suc 0)"
    by simp
  then have "replicate (unat (elem_count sample_world 0x10)) (0 :: half) = [0, 0]"
    by (simp only: replicate.simps)
  then show ?thesis
    using zeros_all_zero [OF constructed_sample_10] constructed_sample_10
    by auto
qed

text \<open>
  Claim C7, as the code has it. On a constructed matrix whose host and device buffers hold
  the same content (neither buffer has changed since they were last synchronised),
  \<^verbatim>\<open>moveToHost()\<close> returns the state it was given. In any case a second \<^verbatim>\<open>moveToHost()\<close> right
  after the first changes nothing: the two calls in a row end in the state the first one
  produced, with the host buffer holding the device content.
\<close>

theorem moveToHost_round_trip:
  assumes "constructed w this"
  shows "(host_of w this = device_of w this \<longrightarrow> moveToHost this w = Returns w) \<and>
         (\<exists>w1. moveToHost this w = Returns w1 \<and> host_of w1 this = device_of w this \<and>
            and_then (moveToHost this w) (moveToHost this) = Returns w1)"
proof -
  from assms obtain m h d where m: "objs w this = Some m" and h: "heap w (m_data m) = Some h"
    and d: "gmem w (m_gpu_data m) = Some d" and lh: "length h = unat (m_elem_num m)"
    and ld: "length d = unat (m_elem_num m)" and fits: "unat (m_elem_num m) * 2 < 2 ^ 64"
    by (rule constructedD)
  let ?w1 = "w\<lparr>heap := (heap w)(m_data m \<mapsto> d)\<rparr>"
  have first: "moveToHost this w = Returns ?w1"
    by (rule moveToHost_result [OF m h d lh ld fits])
  have second: "moveToHost this ?w1 = Returns (?w1\<lparr>heap := (heap ?w1)(m_data m \<mapsto> d)\<rparr>)"
    by (rule moveToHost_result [where h = d]) (use m d ld fits in simp_all)
  have same: "?w1\<lparr>heap := (heap ?w1)(m_data m \<mapsto> d)\<rparr> = ?w1"
    by simp
  have "host_of w this = device_of w this \<longrightarrow> ?w1 = w"
    using m h d by (auto simp: host_of_def device_of_def world_heap_triv)
  moreover have "host_of ?w1 this = device_of w this"
    using m d by (simp add: host_of_def device_of_def)
  ultimately show ?thesis using first second same by simp
qed

theorem moveToHost_round_trip_witness:
  "constructed sample_world 0x20 \<and> host_of sample_world 0x20 = device_of sample_world 0x20 \<and>
   moveToHost 0x20 sample_world = Returns sample_world \<and>
   and_then (moveToHost 0x20 sample_world) (moveToHost 0x20) = Returns sample_world"
proof -
  have sync: "host_of sample_world 0x20 = device_of sample_world 0x20"
    by (simp add: host_of_def device_of_def sample_world_def sample_matrix_def)
  with moveToHost_round_trip [OF constructed_sample_20] constructed_sample_20
  show ?thesis by auto
qed

text \<open>
  Claim C7 as stated asks only that the device buffer has not changed since the last
  synchronisation, and that is not enough. On the sample matrix at \<^verbatim>\<open>0x20\<close>, in sync with
  \<open>[1.5, 1.5]\<close> on both sides, the fill loop of \<^verbatim>\<open>random\<close> (or any write through \<^verbatim>\<open>getData()\<close>)
  stores \<open>[1.0, 1.0]\<close> in the host buffer and leaves device memory alone; \<^verbatim>\<open>moveToHost()\<close> then
  changes the host content back to \<open>[1.5, 1.5]\<close>.
\<close>

theorem moveToHost_host_write_counterexample:
  "constructed sample_world 0x20 \<and>
   host_of sample_world 0x20 = Some [0x3E00, 0x3E00] \<and>
   device_of sample_world 0x20 = Some [0x3E00, 0x3E00] \<and>
   fill_loop (\<lambda>i. Finite False 1) 0x20 0 sample_world =
     Returns (sample_world\<lparr>heap := (heap sample_world)(0x1100 \<mapsto> [0x3C00, 0x3C00])\<rparr>) \<and>
   gmem (sample_world\<lparr>heap := (heap sample_world)(0x1100 \<mapsto> [0x3C00, 0x3C00])\<rparr>)
     = gmem sample_world \<and>
   host_of (sample_world\<lparr>heap := (heap sample_world)(0x1100 \<mapsto> [0x3C00, 0x3C00])\<rparr>) 0x20
     = Some [0x3C00, 0x3C00] \<and>
   moveToHost 0x20 (sample_world\<lparr>heap := (heap sample_world)(0x1100 \<mapsto> [0x3C00, 0x3C00])\<rparr>)
     = Returns sample_world"
proof -
  let ?M = "sample_matrix 1 2 0x1100 0x2100"
  let ?w1 = "sample_world\<lparr>heap := (heap sample_world)(0x1100 \<mapsto> [0x3C00, 0x3C00])\<rparr>"
  have m: "objs sample_world 0x20 = Some ?M"
    by (simp add: sample_world_def)
  have h: "heap sample_world (m_data ?M) = Some [0x3E00, 0x3E00]"
    and d: "gmem sample_world (m_gpu_data ?M) = Some [0x3E00, 0x3E00]"
    by (simp_all add: sample_world_def sample_matrix_def)
  have p: "m_data ?M = 0x1100" and n: "unat (m_elem_num ?M) = 2"
    by (simp_all add: sample_matrix_def)
  have dr: "map (\<lambda>j. float2half (Finite False 1)) [0..<2] = [0x3C00, 0x3C00]"
  proof -
    have "[0..<2] = [0, Suc 0]" by (simp add: upt_rec)
    then show ?thesis by (simp add: half_sign_def half_mag_one)
  qed
  have "fill_loop (\<lambda>i. Finite False 1) 0x20 0 sample_world =
      Returns (sample_world\<lparr>heap := (heap sample_world)(m_data ?M \<mapsto>
        take (unat (0 :: 64 word)) [0x3E00, 0x3E00] @
        map (\<lambda>j. float2half (Finite False 1)) [unat (0 :: 64 word)..<unat (m_elem_num ?M)])\<rparr>)"
    by (rule fill_loop_result [OF m h]) (simp_all add: n)
  then have fill: "fill_loop (\<lambda>i. Finite False 1) 0x20 0 sample_world = Returns ?w1"
    by (simp only: p n dr unsigned_0 take_0 append_Nil)
  have m1: "objs ?w1 0x20 = Some ?M" using m by simp
  have h1: "heap ?w1 (m_data ?M) = Some [0x3C00, 0x3C00]" by (simp add: p)
  have d1: "gmem ?w1 (m_gpu_data ?M) = Some [0x3E00, 0x3E00]" using d by simp
  have "moveToHost 0x20 ?w1 =
      Returns (?w1\<lparr>heap := (heap ?w1)(m_data ?M \<mapsto> [0x3E00, 0x3E00])\<rparr>)"
    by (rule moveToHost_result [OF m1 h1 d1]) (simp_all add: n)
  moreover have "?w1\<lparr>heap := (heap ?w1)(m_data ?M \<mapsto> [0x3E00, 0x3E00])\<rparr> = sample_world"
    using world_heap_triv [OF h] by (simp add: p)
  ultimately have pull: "moveToHost 0x20 ?w1 = Returns sample_world" by simp
  show ?thesis
    using constructed_sample_20 m h d fill pull
    by (simp add: host_of_def device_of_def p)
qed

text \<open>
  Claim C9. On every constructed matrix and for all bounds, \<^verbatim>\<open>random(min, max)\<close> returns and
  has written nothing to device memory: the whole device store, and so the object's
  device buffer, is what it was before the call.
\<close>

theorem random_matrix_device_unchanged:
  assumes "constructed w this"
  shows "\<exists>w'. random_matrix unif this mn mx w = Returns w' \<and> gmem w' = gmem w \<and>
           device_of w' this = device_of w this"
proof -
  from assms obtain m h d where m: "objs w this = Some m" and h: "heap w (m_data m) = Some h"
    and d: "gmem w (m_gpu_data m) = Some d" and lh: "length h = unat (m_elem_num m)"
    and ld: "length d = unat (m_elem_num m)" and fits: "unat (m_elem_num m) * 2 < 2 ^ 64"
    by (rule constructedD)
  show ?thesis
    using random_matrix_result [OF m h d lh ld fits] m
    by (simp add: device_of_def)
qed

theorem random_matrix_device_unchanged_witness:
  "constructed sample_world 0x10 \<and>
   (\<exists>w'. random_matrix (\<lambda>lo hi i. Finite False 1) 0x10 (Finite True 2) (Finite False 2) sample_world
            = Returns w' \<and>
      gmem w' = gmem sample_world \<and> device_of w' 0x10 = Some [0x0000, 0xBC00])"
proof -
  have "device_of sample_world 0x10 = Some [0x0000, 0xBC00]"
    by (simp add: device_of_def sample_world_def sample_matrix_def)
  then show ?thesis
    using random_matrix_device_unchanged [OF constructed_sample_10,
        of "\<lambda>lo hi i. Finite False 1" "Finite True 2" "Finite False 2"] constructed_sample_10
    by auto
qed

subsection \<open>\<^verbatim>\<open>random\<close> loses what it generates\<close>

text \<open>
  Claim C1 says that after \<^verbatim>\<open>random(min, max)\<close> both buffers hold the newly generated
  values. The source fills the host buffer and then calls \<^verbatim>\<open>moveToHost()\<close>, which copies the
  device buffer over it, where the constructor after the same loop copies host to device.
  On the sample matrix at \<^verbatim>\<open>0x20\<close> (both buffers \<open>[1.5, 1.5]\<close>), with every draw equal to
  \<open>1.0\<close>, the call returns the state unchanged: both buffers still hold \<open>[1.5, 1.5]\<close> and not
  the generated \<open>[1.0, 1.0]\<close> (pattern \<^verbatim>\<open>0x3C00\<close>).
\<close>

theorem random_matrix_drops_draws:
  "random_matrix (\<lambda>lo hi i. Finite False 1) 0x20 (Finite True 2) (Finite False 2) sample_world
     = Returns sample_world \<and>
   host_of sample_world 0x20 = Some [0x3E00, 0x3E00] \<and>
   device_of sample_world 0x20 = Some [0x3E00, 0x3E00] \<and>
   map (\<lambda>i. float2half ((\<lambda>lo hi i. Finite False 1) (Finite True 2) (Finite False 2) i)) [0..<2]
     = [0x3C00, 0x3C00]"
proof -
  have m: "objs sample_world 0x20 = Some (sample_matrix 1 2 0x1100 0x2100)"
    by (simp add: sample_world_def)
  have h: "heap sample_world (m_data (sample_matrix 1 2 0x1100 0x2100)) = Some [0x3E00, 0x3E00]"
    by (simp add: sample_world_def sample_matrix_def)
  have d: "gmem sample_world (m_gpu_data (sample_matrix 1 2 0x1100 0x2100)) = Some [0x3E00, 0x3E00]"
    by (simp add: sample_world_def sample_matrix_def)
  have "random_matrix (\<lambda>lo hi i. Finite False 1) 0x20 (Finite True 2) (Finite False 2) sample_world
     = Returns (sample_world\<lparr>heap := (heap sample_world)
          (m_data (sample_matrix 1 2 0x1100 0x2100) \<mapsto> [0x3E00, 0x3E00])\<rparr>)"
    by (rule random_matrix_result [OF m h d]) (simp_all add: sample_matrix_def)
  then have "random_matrix (\<lambda>lo hi i. Finite False 1) 0x20 (Finite True 2) (Finite False 2) sample_world
     = Returns sample_world"
    by (simp only: world_heap_triv [OF h])
  moreover have "[0..<2] = [0, Suc 0]"
    by (simp add: upt_rec)
  ultimately show ?thesis
    using m h d by (simp add: host_of_def device_of_def half_sign_def half_mag_one)
qed

section \<open>Claims about \<^verbatim>\<open>tearUp\<close>\<close>

text \<open>
  Claim C5, as the code has it. For two constructed matrices with equal row and column
  counts, \<^verbatim>\<open>tearUp(base)\<close> returns; afterwards this object's device buffer holds what \<open>base\<close>'s
  host buffer held, no host buffer and no object has changed, and \<open>base\<close>'s device buffer
  is unchanged unless it is the very buffer written, that is, unless \<open>base\<close> is this object
  itself: then it holds the host content.
\<close>

theorem tearUp_copies_base_host:
  assumes "constructed w this" and "constructed w base" and "same_shape w this base"
  shows "\<exists>w'. tearUp this base w = Returns w' \<and>
      device_of w' this = host_of w base \<and>
      host_of w' this = host_of w this \<and>
      host_of w' base = host_of w base \<and>
      device_of w' base =
        (if same_device_buffer w this base then host_of w base else device_of w base) \<and>
      heap w' = heap w \<and> objs w' = objs w"
proof -
  from assms obtain m b y where m: "objs w this = Some m" and b: "objs w base = Some b"
    and y: "heap w (m_data b) = Some y"
    and "tearUp this base w = Returns (w\<lparr>gmem := (gmem w)(m_gpu_data m \<mapsto> y)\<rparr>)"
    by (rule tearUp_constructed)
  then show ?thesis
    by (simp add: device_of_def host_of_def same_device_buffer_def getGpuData_def)
qed

theorem tearUp_copies_base_host_witness:
  "constructed sample_world 0x10 \<and> constructed sample_world 0x20 \<and>
   same_shape sample_world 0x10 0x20 \<and> \<not> same_device_buffer sample_world 0x10 0x20 \<and>
   (\<exists>w'. tearUp 0x10 0x20 sample_world = Returns w' \<and>
      device_of w' 0x10 = Some [0x3E00, 0x3E00] \<and>
      host_of w' 0x10 = Some [0x3C00, 0x4000] \<and>
      host_of w' 0x20 = Some [0x3E00, 0x3E00] \<and>
      device_of w' 0x20 = Some [0x3E00, 0x3E00])"
proof -
  have s: "same_shape sample_world 0x10 0x20"
    by (simp add: same_shape_def sample_world_def sample_matrix_def getRow_def getCol_def)
  have nb: "\<not> same_device_buffer sample_world 0x10 0x20"
    by (simp add: same_device_buffer_def sample_world_def sample_matrix_def getGpuData_def)
  have obs: "host_of sample_world 0x10 = Some [0x3C00, 0x4000]"
    "host_of sample_world 0x20 = Some [0x3E00, 0x3E00]"
    "device_of sample_world 0x20 = Some [0x3E00, 0x3E00]"
    by (simp_all add: host_of_def device_of_def sample_world_def sample_matrix_def)
  show ?thesis
    using tearUp_copies_base_host [OF constructed_sample_10 constructed_sample_20 s]
      constructed_sample_10 constructed_sample_20 s nb obs
    by auto
qed

text \<open>
  Claim C5 as stated fails when \<open>base\<close> is the object itself. On the sample matrix at
  \<^verbatim>\<open>0x10\<close>, whose device buffer holds \<open>[0.0, -1.0]\<close> and whose host buffer holds \<open>[1.0, 2.0]\<close>,
  \<^verbatim>\<open>tearUp(this)\<close> passes both shape checks and overwrites the device buffer of \<open>base\<close>.
\<close>

theorem tearUp_self_counterexample:
  "constructed sample_world 0x10 \<and> same_shape sample_world 0x10 0x10 \<and>
   tearUp 0x10 0x10 sample_world =
     Returns (sample_world\<lparr>gmem := (gmem sample_world)(0x2000 \<mapsto> [0x3C00, 0x4000])\<rparr>) \<and>
   device_of sample_world 0x10 = Some [0x0000, 0xBC00] \<and>
   device_of (sample_world\<lparr>gmem := (gmem sample_world)(0x2000 \<mapsto> [0x3C00, 0x4000])\<rparr>) 0x10
     = Some [0x3C00, 0x4000]"
proof -
  have m: "objs sample_world 0x10 = Some (sample_matrix 1 2 0x1000 0x2000)"
    by (simp add: sample_world_def)
  have d: "gmem sample_world (m_gpu_data (sample_matrix 1 2 0x1000 0x2000)) = Some [0x0000, 0xBC00]"
    and h: "heap sample_world (m_data (sample_matrix 1 2 0x1000 0x2000)) = Some [0x3C00, 0x4000]"
    by (simp_all add: sample_world_def sample_matrix_def)
  have "tearUp 0x10 0x10 sample_world =
     Returns (sample_world\<lparr>gmem := (gmem sample_world)
        (m_gpu_data (sample_matrix 1 2 0x1000 0x2000) \<mapsto> [0x3C00, 0x4000])\<rparr>)"
    by (rule tearUp_result [OF m d _ _ _ m h]) (simp_all add: sample_matrix_def)
  then show ?thesis
    using constructed_sample_10
    by (simp add: same_shape_def device_of_def sample_world_def sample_matrix_def)
qed

section \<open>Claims about the fatal checks\<close>

text \<open>
  Claim C6. Called on a constructed matrix with \<open>base\<close> null or a constructed matrix,
  \<^verbatim>\<open>tearUp(base)\<close> and \<^verbatim>\<open>checkValue(base)\<close> each abort on a failed check exactly when \<open>base\<close> is
  null or its row count or its column count differs from this object's, and the state at
  the abort is the state at the call: nothing has been written. In every other case they
  return.
\<close>

theorem shape_checks_abort:
  assumes "constructed w this" and "base = 0 \<or> constructed w base"
  shows "(aborts_on_check (tearUp this base w) w \<longleftrightarrow> base = 0 \<or> shape_mismatch w this base) \<and>
         (aborts_on_check (checkValue this base w) w \<longleftrightarrow> base = 0 \<or> shape_mismatch w this base) \<and>
         (returns (tearUp this base w) \<longleftrightarrow> \<not> (base = 0 \<or> shape_mismatch w this base)) \<and>
         (returns (checkValue this base w) \<longleftrightarrow> \<not> (base = 0 \<or> shape_mismatch w this base))"
proof -
  from assms(1) obtain m where m: "objs w this = Some m" by (rule constructedD)
  note A = check_aborts [OF m]
  show ?thesis
  proof (cases "base = 0")
    case True
    then show ?thesis using A(1,2) by simp
  next
    case False
    with assms(2) have cb: "constructed w base" by simp
    then obtain b where b: "objs w base = Some b" by (rule constructedD)
    show ?thesis
    proof (cases "m_row m = m_row b \<and> m_col m = m_col b")
      case True
      then have s: "same_shape w this base" and ns: "\<not> shape_mismatch w this base"
        using m b by (simp_all add: same_shape_def shape_mismatch_def getRow_def getCol_def)
      from tearUp_constructed [OF assms(1) cb s] obtain w1
        where "tearUp this base w = Returns w1" by metis
      moreover from checkValue_constructed [OF assms(1) cb s] obtain w2
        where "checkValue this base w = Returns w2" by metis
      ultimately show ?thesis using False ns by simp
    next
      case False
      then have mm: "shape_mismatch w this base"
        using m b by (auto simp: shape_mismatch_def getRow_def getCol_def)
      from False A(3-6) [OF \<open>base \<noteq> 0\<close> b]
      have "(\<exists>what. tearUp this base w = Aborts (CheckFailed what) w) \<and>
            (\<exists>what. checkValue this base w = Aborts (CheckFailed what) w)"
        by (cases "m_row m = m_row b") auto
      then show ?thesis using mm by auto
    qed
  qed
qed

theorem shape_checks_abort_witness:
  "constructed sample_world 0x10 \<and> constructed sample_world 0x30 \<and>
   shape_mismatch sample_world 0x10 0x30 \<and>
   aborts_on_check (tearUp 0x10 0x30 sample_world) sample_world \<and>
   aborts_on_check (checkValue 0x10 0x30 sample_world) sample_world \<and>
   aborts_on_check (tearUp 0x10 0 sample_world) sample_world \<and>
   aborts_on_check (checkValue 0x10 0 sample_world) sample_world \<and>
   constructed sample_world 0x20 \<and> \<not> shape_mismatch sample_world 0x10 0x20 \<and>
   returns (tearUp 0x10 0x20 sample_world) \<and> returns (checkValue 0x10 0x20 sample_world)"
proof -
  have mm: "shape_mismatch sample_world 0x10 0x30"
    by (simp add: shape_mismatch_def sample_world_def sample_matrix_def getRow_def getCol_def)
  have nm: "\<not> shape_mismatch sample_world 0x10 0x20"
    by (simp add: shape_mismatch_def sample_world_def sample_matrix_def getRow_def getCol_def)
  have c30: "0x30 = (0 :: ptr) \<or> constructed sample_world 0x30"
    using constructed_sample_30 by simp
  have c20: "0x20 = (0 :: ptr) \<or> constructed sample_world 0x20"
    using constructed_sample_20 by simp
  have c0: "0 = (0 :: ptr) \<or> constructed sample_world 0" by simp
  show ?thesis
    using shape_checks_abort [OF constructed_sample_10 c30]
      shape_checks_abort [OF constructed_sample_10 c20]
      shape_checks_abort [OF constructed_sample_10 c0]
      mm nm constructed_sample_10 constructed_sample_20 constructed_sample_30
    by simp
qed

section \<open>Claims about \<^verbatim>\<open>checkValue\<close>\<close>

text \<open>
  Claim C3, as the code has it. For two constructed matrices of equal shape
  \<^verbatim>\<open>checkValue(base)\<close> returns and stores as max-diff the running \<^verbatim>\<open>std::max\<close>, from \<open>0.0\<close>, of
  the absolute differences of the widened host values, and as avg-diff their running
  \<^verbatim>\<open>float\<close> sum divided by the element count. When no difference is a NaN, max-diff is the
  maximum of the differences: one of them, and not below any. When the two host buffers
  hold identical content and every element is a finite number, both statistics are
  exactly \<open>+0.0\<close>.
\<close>

theorem checkValue_statistics:
  assumes "constructed w this" and "constructed w base" and "same_shape w this base"
  shows "\<exists>w' x y. checkValue this base w = Returns w' \<and>
      host_of w this = Some x \<and> host_of w base = Some y \<and>
      stats_of w' this =
        Some (running_max (abs_diffs x y),
              mean_of (running_sum (abs_diffs x y)) (elem_count w this)) \<and>
      (NaN \<notin> set (abs_diffs x y) \<longrightarrow>
         running_max (abs_diffs x y) \<in> set (abs_diffs x y) \<and>
         (\<forall>d \<in> set (abs_diffs x y). fle d (running_max (abs_diffs x y)))) \<and>
      (x = y \<and> (\<forall>a \<in> set x. is_finite (half2float a)) \<longrightarrow>
         stats_of w' this = Some (Finite False 0, Finite False 0))"
proof -
  from assms obtain m x y where m: "objs w this = Some m" and x: "host_of w this = Some x"
    and y: "host_of w base = Some y" and lx: "length x = unat (m_elem_num m)"
    and ly: "length y = unat (m_elem_num m)" and pos: "0 < m_elem_num m"
    and res: "checkValue this base w =
      Returns (with_stats this (running_max (abs_diffs x y))
                 (mean_of (running_sum (abs_diffs x y)) (m_elem_num m)) w)"
    by (rule checkValue_constructed)
  let ?ds = "abs_diffs x y"
  let ?w' = "with_stats this (running_max ?ds) (mean_of (running_sum ?ds) (m_elem_num m)) w"
  have st: "stats_of ?w' this = Some (running_max ?ds, mean_of (running_sum ?ds) (elem_count w this))"
    using m by (simp add: stats_of_with_stats elem_count_def getElemNum_def)
  have "0 < unat (m_elem_num m)" using pos by (simp add: word_less_nat_alt)
  then have ne: "?ds \<noteq> []" using lx ly by (auto simp: abs_diffs_def)
  have mx: "NaN \<notin> set ?ds \<longrightarrow>
         running_max ?ds \<in> set ?ds \<and> (\<forall>d \<in> set ?ds. fle d (running_max ?ds))"
    using running_max_is_maximum [OF _ ne] abs_diffs_sign_clear [of x y] by blast
  have zero: "x = y \<and> (\<forall>a \<in> set x. is_finite (half2float a)) \<longrightarrow>
         stats_of ?w' this = Some (Finite False 0, Finite False 0)"
  proof
    assume a: "x = y \<and> (\<forall>a \<in> set x. is_finite (half2float a))"
    then have "\<forall>d \<in> set ?ds. d = Finite False 0" using abs_diffs_same [of x] by simp
    then have "running_max ?ds = Finite False 0" and "running_sum ?ds = Finite False 0"
      by (rule running_zero)+
    then show "stats_of ?w' this = Some (Finite False 0, Finite False 0)"
      using m pos by (simp add: stats_of_with_stats mean_of_zero)
  qed
  show ?thesis
    using res x y st mx zero by blast
qed

theorem checkValue_statistics_witness:
  "constructed sample_world 0x10 \<and> constructed sample_world 0x20 \<and>
   same_shape sample_world 0x10 0x20 \<and>
   NaN \<notin> set (abs_diffs [0x3C00, 0x4000] [0x3E00, 0x3E00]) \<and>
   (\<exists>w'. checkValue 0x10 0x20 sample_world = Returns w' \<and>
      stats_of w' 0x10 = Some (Finite False (1 / 2), Finite False (1 / 2))) \<and>
   same_shape sample_world 0x20 0x20 \<and> is_finite (half2float 0x3E00) \<and>
   (\<exists>w'. checkValue 0x20 0x20 sample_world = Returns w' \<and>
      stats_of w' 0x20 = Some (Finite False 0, Finite False 0))"
proof -
  have fin: "is_finite (half2float 0x3E00)" by (simp add: half2float_3E00)
  have nn: "NaN \<notin> set (abs_diffs [0x3C00, 0x4000] [0x3E00, 0x3E00])"
    by (simp add: abs_diffs_sample)
  from checkValue_statistics [OF constructed_sample_10 constructed_sample_20 same_shape_sample(1)]
  have one: "\<exists>w'. checkValue 0x10 0x20 sample_world = Returns w' \<and>
      stats_of w' 0x10 = Some (Finite False (1 / 2), Finite False (1 / 2))"
    by (auto simp: host_sample elem_count_sample abs_diffs_sample stats_sample)
  from checkValue_statistics [OF constructed_sample_20 constructed_sample_20 same_shape_sample(2)]
  have two: "\<exists>w'. checkValue 0x20 0x20 sample_world = Returns w' \<and>
      stats_of w' 0x20 = Some (Finite False 0, Finite False 0)"
    using fin by (auto simp: host_sample)
  show ?thesis
    using constructed_sample_10 constructed_sample_20 same_shape_sample fin nn one two by simp
qed

text \<open>
  Claim C3 as stated fails for identical content that is not finite. Two \<open>1 \<times> 1\<close>
  matrices both holding \<open>+\<infinity>\<close>: the difference \<open>\<infinity> - \<infinity>\<close> is a NaN, \<^verbatim>\<open>std::max(0, NaN)\<close> keeps
  \<open>0\<close>, and the sum and the mean are NaN, not \<open>0\<close>.
\<close>

theorem checkValue_identical_counterexample:
  "constructed overflow_world 0x10 \<and> constructed overflow_world 0x20 \<and>
   same_shape overflow_world 0x10 0x20 \<and>
   host_of overflow_world 0x10 = host_of overflow_world 0x20 \<and>
   checkValue 0x10 0x20 overflow_world =
     Returns (with_stats 0x10 (Finite False 0) NaN overflow_world) \<and>
   stats_of (with_stats 0x10 (Finite False 0) NaN overflow_world) 0x10 = Some (Finite False 0, NaN) \<and>
   NaN \<noteq> Finite False 0"
  using constructed_overflow same_shape_overflow host_overflow checkValue_overflow
  by (simp add: stats_of_def with_stats_def update_this_def overflow_world_def)

text \<open>
  Claim C10, as the code has it. After \<^verbatim>\<open>checkValue(base)\<close> on two constructed matrices of
  equal shape, \<open>0 \<le> max-diff\<close> holds, and \<open>0 \<le> avg-diff\<close> holds when no per-element difference
  is a NaN. Nothing is promised about the order of avg-diff and max-diff.
\<close>

theorem checkValue_statistics_bounds:
  assumes "constructed w this" and "constructed w base" and "same_shape w this base"
  shows "\<exists>w' x y mx av. checkValue this base w = Returns w' \<and>
      host_of w this = Some x \<and> host_of w base = Some y \<and>
      stats_of w' this = Some (mx, av) \<and> fle (Finite False 0) mx \<and>
      (NaN \<notin> set (abs_diffs x y) \<longrightarrow> fle (Finite False 0) av)"
proof -
  from assms obtain m x y where m: "objs w this = Some m" and x: "host_of w this = Some x"
    and y: "host_of w base = Some y" and pos: "0 < m_elem_num m"
    and res: "checkValue this base w =
      Returns (with_stats this (running_max (abs_diffs x y))
                 (mean_of (running_sum (abs_diffs x y)) (m_elem_num m)) w)"
    by (rule checkValue_constructed)
  let ?ds = "abs_diffs x y"
  let ?av = "mean_of (running_sum ?ds) (m_elem_num m)"
  have st: "stats_of (with_stats this (running_max ?ds) ?av w) this = Some (running_max ?ds, ?av)"
    using m by (rule stats_of_with_stats)
  have "NaN \<notin> set ?ds \<longrightarrow> fle (Finite False 0) ?av"
  proof
    assume "NaN \<notin> set ?ds"
    then have "\<forall>d \<in> set ?ds. sign_clear d" by (rule abs_diffs_sign_clear)
    then have "sign_clear (running_sum ?ds)" by (rule running_sum_sign_clear)
    then have "sign_clear ?av" using pos by (simp add: mean_of_sign_clear)
    then show "fle (Finite False 0) ?av" by (rule sign_clear_fle)
  qed
  with res x y st running_max_nonneg [of ?ds] show ?thesis by blast
qed

theorem checkValue_statistics_bounds_witness:
  "constructed sample_world 0x10 \<and> constructed sample_world 0x20 \<and>
   same_shape sample_world 0x10 0x20 \<and>
   NaN \<notin> set (abs_diffs [0x3C00, 0x4000] [0x3E00, 0x3E00]) \<and>
   (\<exists>w' mx av. checkValue 0x10 0x20 sample_world = Returns w' \<and>
      stats_of w' 0x10 = Some (mx, av) \<and>
      fle (Finite False 0) mx \<and> fle (Finite False 0) av)"
proof -
  have nn: "NaN \<notin> set (abs_diffs [0x3C00, 0x4000] [0x3E00, 0x3E00])"
    by (simp add: abs_diffs_sample)
  from checkValue_statistics_bounds
    [OF constructed_sample_10 constructed_sample_20 same_shape_sample(1)]
  have "\<exists>w' mx av. checkValue 0x10 0x20 sample_world = Returns w' \<and>
      stats_of w' 0x10 = Some (mx, av) \<and>
      fle (Finite False 0) mx \<and> fle (Finite False 0) av"
    using nn by (auto simp: host_sample)
  then show ?thesis
    using constructed_sample_10 constructed_sample_20 same_shape_sample(1) nn by simp
qed

text \<open>
  Claim C10 as stated fails twice. With both matrices holding \<open>+\<infinity>\<close> avg-diff is a NaN,
  and \<open>0 \<le> NaN\<close> is false. With three elements \<open>1.5\<close> against three elements \<open>-2\<^sup>-\<^sup>2\<^sup>2\<close> every
  difference, and so max-diff, is \<open>1.5 + 2\<^sup>-\<^sup>2\<^sup>2\<close>; the \<^verbatim>\<open>float\<close> sum of the three rounds up (a tie,
  to the even significand) to \<open>4.5 + 2\<^sup>-\<^sup>2\<^sup>0\<close>, and a third of that rounds to
  \<open>1.5 + 3 \<times> 2\<^sup>-\<^sup>2\<^sup>3\<close>, which is above max-diff.
\<close>

theorem checkValue_statistics_order_counterexample:
  "checkValue 0x10 0x20 overflow_world =
     Returns (with_stats 0x10 (Finite False 0) NaN overflow_world) \<and>
   stats_of (with_stats 0x10 (Finite False 0) NaN overflow_world) 0x10 = Some (Finite False 0, NaN) \<and>
   \<not> fle (Finite False 0) NaN \<and>
   checkValue 0x10 0x20 rounding_world =
     Returns (with_stats 0x10 (Finite False (6291457 / 4194304))
                (Finite False (12582915 / 8388608)) rounding_world) \<and>
   stats_of (with_stats 0x10 (Finite False (6291457 / 4194304))
                (Finite False (12582915 / 8388608)) rounding_world) 0x10
     = Some (Finite False (6291457 / 4194304), Finite False (12582915 / 8388608)) \<and>
   \<not> fle (Finite False (12582915 / 8388608)) (Finite False (6291457 / 4194304))"
  using checkValue_overflow checkValue_rounding
  by (simp add: stats_of_def with_stats_def update_this_def overflow_world_def rounding_world_def
      signed_def)

text \<open>
  Claim C8. On two constructed matrices of equal shape \<^verbatim>\<open>checkValue(base)\<close> returns the state
  it was given with only the two statistics of this object replaced: all host and device
  memory and every other object are as before, so the host and device buffers of both
  operands are unchanged. The statistics it stores do not depend on the ones stored
  before: started from any other pair of old statistics, the call ends in the same state.
\<close>

theorem checkValue_frame:
  assumes "constructed w this" and "constructed w base" and "same_shape w this base"
  shows "\<exists>mx av. checkValue this base w = Returns (with_stats this mx av w) \<and>
      (\<forall>mx0 av0. checkValue this base (with_stats this mx0 av0 w)
                   = Returns (with_stats this mx av w)) \<and>
      heap (with_stats this mx av w) = heap w \<and> gmem (with_stats this mx av w) = gmem w \<and>
      host_of (with_stats this mx av w) this = host_of w this \<and>
      device_of (with_stats this mx av w) this = device_of w this \<and>
      host_of (with_stats this mx av w) base = host_of w base \<and>
      device_of (with_stats this mx av w) base = device_of w base \<and>
      (\<forall>p. p \<noteq> this \<longrightarrow> objs (with_stats this mx av w) p = objs w p)"
proof -
  from assms obtain m x y where m: "objs w this = Some m" and x: "host_of w this = Some x"
    and y: "host_of w base = Some y"
    and res: "checkValue this base w =
      Returns (with_stats this (running_max (abs_diffs x y))
                 (mean_of (running_sum (abs_diffs x y)) (m_elem_num m)) w)"
    by (rule checkValue_constructed)
  let ?mx = "running_max (abs_diffs x y)"
  let ?av = "mean_of (running_sum (abs_diffs x y)) (m_elem_num m)"
  have again: "checkValue this base (with_stats this mx0 av0 w) = Returns (with_stats this ?mx ?av w)"
    for mx0 av0
  proof -
    let ?w0 = "with_stats this mx0 av0 w"
    let ?m0 = "m\<lparr>m_max_diff := mx0, m_avg_diff := av0\<rparr>"
    have m0: "objs ?w0 this = Some ?m0" using m by (simp add: with_stats_def update_this_def)
    have c1: "constructed ?w0 this"
      using assms(1) by (simp add: constructed_with_stats)
    have c2: "constructed ?w0 base"
      using assms(2) by (simp add: constructed_with_stats)
    have c3: "same_shape ?w0 this base"
      using assms(3) m
      by (auto simp: same_shape_def with_stats_def update_this_def getRow_def getCol_def
          split: option.splits)
    have hx: "host_of ?w0 this = Some x"
      using x m by (simp add: host_of_def with_stats_def update_this_def)
    have hy: "host_of ?w0 base = Some y"
      using y m by (auto simp: host_of_def with_stats_def update_this_def split: option.splits)
    from c1 c2 c3 obtain m' x' y' where m': "objs ?w0 this = Some m'"
      and x': "host_of ?w0 this = Some x'" and y': "host_of ?w0 base = Some y'"
      and res': "checkValue this base ?w0 =
        Returns (with_stats this (running_max (abs_diffs x' y'))
                   (mean_of (running_sum (abs_diffs x' y')) (m_elem_num m')) ?w0)"
      by (rule checkValue_constructed)
    from m' m0 have "m' = ?m0" by simp
    moreover from x' hx have "x' = x" by simp
    moreover from y' hy have "y' = y" by simp
    moreover have "with_stats this a c ?w0 = with_stats this a c w" for a c
      using m by (simp add: with_stats_def update_this_def)
    ultimately show ?thesis using res' by simp
  qed
  have frame: "heap (with_stats this ?mx ?av w) = heap w" "gmem (with_stats this ?mx ?av w) = gmem w"
    "host_of (with_stats this ?mx ?av w) this = host_of w this"
    "device_of (with_stats this ?mx ?av w) this = device_of w this"
    "host_of (with_stats this ?mx ?av w) base = host_of w base"
    "device_of (with_stats this ?mx ?av w) base = device_of w base"
    "\<forall>p. p \<noteq> this \<longrightarrow> objs (with_stats this ?mx ?av w) p = objs w p"
    using m by (auto simp: with_stats_def update_this_def host_of_def device_of_def split: option.splits)
  show ?thesis
    using res again frame by blast
qed

theorem checkValue_frame_witness:
  "constructed sample_world 0x10 \<and> constructed sample_world 0x20 \<and>
   same_shape sample_world 0x10 0x20 \<and>
   (\<exists>mx av. checkValue 0x10 0x20 sample_world = Returns (with_stats 0x10 mx av sample_world) \<and>
      checkValue 0x10 0x20 (with_stats 0x10 NaN (Infinity True) sample_world)
        = Returns (with_stats 0x10 mx av sample_world) \<and>
      host_of (with_stats 0x10 mx av sample_world) 0x10 = Some [0x3C00, 0x4000] \<and>
      objs (with_stats 0x10 mx av sample_world) 0x20 = objs sample_world 0x20)"
proof -
  from checkValue_frame [OF constructed_sample_10 constructed_sample_20 same_shape_sample(1)]
  obtain mx av where
    "checkValue 0x10 0x20 sample_world = Returns (with_stats 0x10 mx av sample_world)"
    and "\<forall>mx0 av0. checkValue 0x10 0x20 (with_stats 0x10 mx0 av0 sample_world)
                   = Returns (with_stats 0x10 mx av sample_world)"
    and "host_of (with_stats 0x10 mx av sample_world) 0x10 = host_of sample_world 0x10"
    and "\<forall>p. p \<noteq> 0x10 \<longrightarrow> objs (with_stats 0x10 mx av sample_world) p = objs sample_world p"
    by blast
  moreover have "(0x20 :: ptr) \<noteq> 0x10" by simp
  ultimately have "checkValue 0x10 0x20 sample_world = Returns (with_stats 0x10 mx av sample_world) \<and>
      checkValue 0x10 0x20 (with_stats 0x10 NaN (Infinity True) sample_world)
        = Returns (with_stats 0x10 mx av sample_world) \<and>
      host_of (with_stats 0x10 mx av sample_world) 0x10 = Some [0x3C00, 0x4000] \<and>
      objs (with_stats 0x10 mx av sample_world) 0x20 = objs sample_world 0x20"
    using host_sample(1) by metis
  then show ?thesis
    using constructed_sample_10 constructed_sample_20 same_shape_sample(1) by blast
qed

section \<open>Claims about the constructor\<close>

text \<open>
  Claim C2, as the code has it. For \<open>rows > 0\<close> and \<open>cols > 0\<close> whose buffer size
  \<open>rows * cols * sizeof(half)\<close> is below \<open>2\<^sup>6\<^sup>4\<close>, when both allocations succeed with non-null
  addresses, the constructor returns a constructed object: its element count is the
  product \<open>rows * cols\<close>, its two handles are the non-null addresses allocated, and host and
  device buffer hold the same content, the converted draws. With \<open>rows = 0\<close> or \<open>cols = 0\<close>
  the constructor aborts on a failed check.
\<close>

theorem Matrix_ctor_establishes:
  "(0 < row \<and> 0 < col \<and> unat row * unat col * 2 < 2 ^ 64 \<and>
    host_grant ev = Some (hp, hj) \<and> hp \<noteq> 0 \<and> dev_grant ev = Some (dp, dj) \<and> dp \<noteq> 0 \<and>
    this \<noteq> 0 \<longrightarrow>
      (\<exists>w' m. Matrix_ctor ev this row col name mn mx w = Returns w' \<and>
         objs w' this = Some m \<and> constructed w' this \<and>
         unat (getElemNum m) = unat row * unat col \<and> getRow m = row \<and> getCol m = col \<and>
         getData m = hp \<and> getGpuData m = dp \<and>
         host_of w' this = device_of w' this \<and>
         host_of w' this = Some (drawn ev mn mx (unat row * unat col)))) \<and>
   (row = 0 \<or> col = 0 \<longrightarrow>
      (\<exists>what w'. Matrix_ctor ev this row col name mn mx w = Aborts (CheckFailed what) w'))"
proof (intro conjI impI)
  assume a: "0 < row \<and> 0 < col \<and> unat row * unat col * 2 < 2 ^ 64 \<and>
    host_grant ev = Some (hp, hj) \<and> hp \<noteq> 0 \<and> dev_grant ev = Some (dp, dj) \<and> dp \<noteq> 0 \<and>
    this \<noteq> 0"
  then have row: "0 < row" and col: "0 < col" and fits: "unat row * unat col * 2 < 2 ^ 64"
    and hg: "host_grant ev = Some (hp, hj)" and hp: "hp \<noteq> 0"
    and dg: "dev_grant ev = Some (dp, dj)" and dp: "dp \<noteq> 0" and nonnull: "this \<noteq> 0"
    by simp_all
  note P = unat_product [OF row col fits]
  let ?M = "constructed_matrix row col name mn mx hp dp"
  let ?H = "drawn ev mn mx (unat (row * col))"
  let ?w' = "w\<lparr>heap := (heap w)(hp \<mapsto> ?H), gmem := (gmem w)(dp \<mapsto> ?H),
               objs := (objs w)(this \<mapsto> ?M)\<rparr>"
  have res: "Matrix_ctor ev this row col name mn mx w = Returns ?w'"
    by (rule Matrix_ctor_result [OF row col P(2,3) hg hp dg dp])
  have c: "constructed ?w' this"
    using row col P hp dp nonnull by (simp add: constructed_def constructed_matrix_def drawn_def)
  have "objs ?w' this = Some ?M" by simp
  moreover have "unat (getElemNum ?M) = unat row * unat col" "getRow ?M = row" "getCol ?M = col"
    "getData ?M = hp" "getGpuData ?M = dp"
    using P(1) by (simp_all add: constructed_matrix_def getElemNum_def getRow_def getCol_def
        getData_def getGpuData_def)
  moreover have "host_of ?w' this = Some ?H" "device_of ?w' this = Some ?H"
    by (simp_all add: host_of_def device_of_def constructed_matrix_def)
  ultimately show "\<exists>w' m. Matrix_ctor ev this row col name mn mx w = Returns w' \<and>
         objs w' this = Some m \<and> constructed w' this \<and>
         unat (getElemNum m) = unat row * unat col \<and> getRow m = row \<and> getCol m = col \<and>
         getData m = hp \<and> getGpuData m = dp \<and>
         host_of w' this = device_of w' this \<and>
         host_of w' this = Some (drawn ev mn mx (unat row * unat col))"
    using res c P(1) by (intro exI [of _ ?w'] exI [of _ ?M]) simp
next
  assume "row = 0 \<or> col = 0"
  then show "\<exists>what w'. Matrix_ctor ev this row col name mn mx w = Aborts (CheckFailed what) w'"
    by (rule Matrix_ctor_zero_dimension)
qed

theorem Matrix_ctor_establishes_witness:
  "(0 :: size_t) < 1 \<and> (0 :: size_t) < 2 \<and> unat (1 :: size_t) * unat (2 :: size_t) * 2 < 2 ^ 64 \<and>
   (\<exists>w' m. Matrix_ctor (sample_env (3 / 2)) 0x20 1 2 ''Matrix'' (Finite True 2) (Finite False 2)
              empty_world = Returns w' \<and>
      objs w' 0x20 = Some m \<and> constructed w' 0x20 \<and> getElemNum m = 2 \<and>
      getData m = 0x1100 \<and> getGpuData m = 0x2100 \<and>
      host_of w' 0x20 = Some [0x3E00, 0x3E00] \<and> device_of w' 0x20 = Some [0x3E00, 0x3E00]) \<and>
   (\<exists>what w'. Matrix_ctor (sample_env (3 / 2)) 0x20 0 2 ''Matrix'' (Finite True 2) (Finite False 2)
              empty_world = Aborts (CheckFailed what) w')"
proof -
  have hyp: "(0 :: size_t) < 1 \<and> (0 :: size_t) < 2 \<and>
      unat (1 :: size_t) * unat (2 :: size_t) * 2 < 2 ^ 64 \<and>
      host_grant (sample_env (3 / 2)) = Some (0x1100, \<lambda>i. 0) \<and> (0x1100 :: ptr) \<noteq> 0 \<and>
      dev_grant (sample_env (3 / 2)) = Some (0x2100, \<lambda>i. 0) \<and> (0x2100 :: ptr) \<noteq> 0 \<and>
      (0x20 :: ptr) \<noteq> 0"
    by (simp add: sample_env_def)
  have two: "m_elem_num m = 2" if "unat (m_elem_num m) = unat (1 :: size_t) * unat (2 :: size_t)" for m
    using that by (simp add: word_unat_eq_iff)
  from Matrix_ctor_establishes [of 1 2 "sample_env (3 / 2)" "0x1100" "\<lambda>i. 0" "0x2100" "\<lambda>i. 0"
      "0x20" "''Matrix''" "Finite True 2" "Finite False 2" empty_world] hyp
  have "\<exists>w' m. Matrix_ctor (sample_env (3 / 2)) 0x20 1 2 ''Matrix'' (Finite True 2) (Finite False 2)
              empty_world = Returns w' \<and>
      objs w' 0x20 = Some m \<and> constructed w' 0x20 \<and> getElemNum m = 2 \<and>
      getData m = 0x1100 \<and> getGpuData m = 0x2100 \<and>
      host_of w' 0x20 = Some [0x3E00, 0x3E00] \<and> device_of w' 0x20 = Some [0x3E00, 0x3E00]"
    using drawn_sample two by (auto simp: getElemNum_def)
  moreover from Matrix_ctor_establishes [of 0 2 "sample_env (3 / 2)" "0x1100" "\<lambda>i. 0" "0x2100" "\<lambda>i. 0"
      "0x20" "''Matrix''" "Finite True 2" "Finite False 2" empty_world]
  have "\<exists>what w'. Matrix_ctor (sample_env (3 / 2)) 0x20 0 2 ''Matrix'' (Finite True 2) (Finite False 2)
              empty_world = Aborts (CheckFailed what) w'"
    by simp
  ultimately show ?thesis by simp
qed

text \<open>
  Claim C2 as stated fails when the product does not fit \<^verbatim>\<open>size_t\<close>. For
  \<open>rows = cols = 2\<^sup>3\<^sup>2\<close>, both positive, \<^verbatim>\<open>m_row * m_col\<close> wraps to \<open>0\<close> and the check
  \<^verbatim>\<open>HGEMM_CHECK_GT(m_elem_num, 0)\<close> ends the program.
\<close>

theorem Matrix_ctor_overflow_counterexample:
  "(0 :: size_t) < 0x100000000 \<and>
   Matrix_ctor (sample_env (3 / 2)) 0x20 0x100000000 0x100000000 ''Matrix''
       (Finite True 2) (Finite False 2) empty_world
     = Aborts (CheckFailed ''m_elem_num > 0'')
         (empty_world\<lparr>objs := [0x20 \<mapsto>
            constructed_matrix 0x100000000 0x100000000 ''Matrix'' (Finite True 2) (Finite False 2) 0 0]\<rparr>) \<and>
   m_elem_num (constructed_matrix 0x100000000 0x100000000 ''Matrix''
       (Finite True 2) (Finite False 2) 0 0) = 0"
  by (simp add: Matrix_ctor_def Let_def HGEMM_CHECK_GT_def HGEMM_CHECK_def update_this_def
      constructed_matrix_def empty_world_def)

text \<open>
  A product that wraps to a value other than \<open>0\<close> passes the same check: \<open>(2\<^sup>6\<^sup>3 + 1) \<times> 2\<close>
  gives an object of two elements. And bounds beyond the range of a half give a matrix
  of infinities, the content of the state \<open>overflow_world\<close> above.
\<close>

lemma Matrix_ctor_wraps:
  "Matrix_ctor (sample_env (3 / 2)) 0x20 0x8000000000000001 2 ''Matrix''
       (Finite True 2) (Finite False 2) empty_world
     = Returns (empty_world\<lparr>heap := [0x1100 \<mapsto> [0x3E00, 0x3E00]],
          gmem := [0x2100 \<mapsto> [0x3E00, 0x3E00]],
          objs := [0x20 \<mapsto> constructed_matrix 0x8000000000000001 2 ''Matrix''
             (Finite True 2) (Finite False 2) 0x1100 0x2100]\<rparr>)"
  and "m_elem_num (constructed_matrix 0x8000000000000001 2 ''Matrix''
             (Finite True 2) (Finite False 2) 0x1100 0x2100) = 2"
proof -
  have n: "(0x8000000000000001 :: size_t) * 2 = 2" by simp
  have "Matrix_ctor (sample_env (3 / 2)) 0x20 0x8000000000000001 2 ''Matrix''
       (Finite True 2) (Finite False 2) empty_world
     = Returns (empty_world\<lparr>heap := (heap empty_world)(0x1100 \<mapsto>
            drawn (sample_env (3 / 2)) (Finite True 2) (Finite False 2)
              (unat ((0x8000000000000001 :: size_t) * 2))),
          gmem := (gmem empty_world)(0x2100 \<mapsto>
            drawn (sample_env (3 / 2)) (Finite True 2) (Finite False 2)
              (unat ((0x8000000000000001 :: size_t) * 2))),
          objs := (objs empty_world)(0x20 \<mapsto> constructed_matrix 0x8000000000000001 2 ''Matrix''
             (Finite True 2) (Finite False 2) 0x1100 0x2100)\<rparr>)"
    by (rule Matrix_ctor_result) (simp_all add: sample_env_def)
  then show "Matrix_ctor (sample_env (3 / 2)) 0x20 0x8000000000000001 2 ''Matrix''
       (Finite True 2) (Finite False 2) empty_world
     = Returns (empty_world\<lparr>heap := [0x1100 \<mapsto> [0x3E00, 0x3E00]],
          gmem := [0x2100 \<mapsto> [0x3E00, 0x3E00]],
          objs := [0x20 \<mapsto> constructed_matrix 0x8000000000000001 2 ''Matrix''
             (Finite True 2) (Finite False 2) 0x1100 0x2100]\<rparr>)"
    by (simp add: n drawn_sample empty_world_def)
  show "m_elem_num (constructed_matrix 0x8000000000000001 2 ''Matrix''
             (Finite True 2) (Finite False 2) 0x1100 0x2100) = 2"
    by (simp add: constructed_matrix_def)
qed

lemma overflow_content_reachable:
  "Matrix_ctor (sample_env 75000) 0x10 1 1 ''Matrix'' (Finite False 70000) (Finite False 80000)
       empty_world
     = Returns (empty_world\<lparr>heap := [0x1100 \<mapsto> [0x7C00]], gmem := [0x2100 \<mapsto> [0x7C00]],
          objs := [0x10 \<mapsto> constructed_matrix 1 1 ''Matrix'' (Finite False 70000)
             (Finite False 80000) 0x1100 0x2100]\<rparr>)"
proof -
  have "drawn (sample_env 75000) mn mx 1 = [0x7C00]" for mn mx
    by (simp add: drawn_def sample_env_def half_sign_def half_mag_75000)
  moreover have "Matrix_ctor (sample_env 75000) 0x10 1 1 ''Matrix'' (Finite False 70000)
       (Finite False 80000) empty_world
     = Returns (empty_world\<lparr>heap := (heap empty_world)(0x1100 \<mapsto>
            drawn (sample_env 75000) (Finite False 70000) (Finite False 80000)
              (unat ((1 :: size_t) * 1))),
          gmem := (gmem empty_world)(0x2100 \<mapsto>
            drawn (sample_env 75000) (Finite False 70000) (Finite False 80000)
              (unat ((1 :: size_t) * 1))),
          objs := (objs empty_world)(0x10 \<mapsto> constructed_matrix 1 1 ''Matrix''
             (Finite False 70000) (Finite False 80000) 0x1100 0x2100)\<rparr>)"
    by (rule Matrix_ctor_result) (simp_all add: sample_env_def)
  ultimately show ?thesis by (simp add: empty_world_def)
qed

end
